theory Spec2Isabelle
  imports Main "HOL-Library.Sublist"
begin

section \<open>Python strings\<close>

text \<open>
  A Python \<open>str\<close> is modelled as a \<open>string\<close>, a list of 8-bit characters read as the
  code points 0..255. On that range \<open>str.strip()\<close>, \<open>str.isspace()\<close> and the regular
  expression class \<open>\s\<close> agree on the twelve characters below (tab, line feed, vertical
  tab, form feed, carriage return, the four separators 0x1C..0x1F, space, NEL and the
  no-break space).
\<close>

definition is_space :: "char \<Rightarrow> bool" where
  "is_space c = (c \<in> set [CHR 0x09, CHR 0x0A, CHR 0x0B, CHR 0x0C, CHR 0x0D,
      CHR 0x1C, CHR 0x1D, CHR 0x1E, CHR 0x1F, CHR 0x20, CHR 0x85, CHR 0xA0])"

definition lstrip :: "string \<Rightarrow> string" where
  "lstrip s = dropWhile is_space s"

definition rstrip :: "string \<Rightarrow> string" where
  "rstrip s = rev (dropWhile is_space (rev s))"

text \<open>\<open>s.strip()\<close> with no argument.\<close>

definition strip :: "string \<Rightarrow> string" where
  "strip s = rstrip (lstrip s)"

text \<open>\<open>sub in s\<close> for strings: \<open>sub\<close> occurs in \<open>s\<close> as a contiguous piece.\<close>

fun contains :: "string \<Rightarrow> string \<Rightarrow> bool" where
  "contains sub [] = (sub = [])"
| "contains sub (c # cs) = (prefix sub (c # cs) \<or> contains sub cs)"

text \<open>The decimal text of an integer, as an f-string renders it.\<close>

definition digit_char :: "nat \<Rightarrow> char" where
  "digit_char d = ''0123456789'' ! d"

fun str_nat :: "nat \<Rightarrow> string" where
  "str_nat n = (if n < 10 then [digit_char n] else str_nat (n div 10) @ [digit_char (n mod 10)])"

declare str_nat.simps [simp del]

definition str_int :: "int \<Rightarrow> string" where
  "str_int i = (if i < 0 then CHR ''-'' # str_nat (nat (- i)) else str_nat (nat i))"

section \<open>The executor (exec.py)\<close>

text \<open>
  The value passed as \<open>code\<close>: a string, or an object that is not a string
  (\<open>isinstance(code, str)\<close> is false).
\<close>

datatype source = Str string | NotStr

text \<open>
  The value passed as \<open>timeout\<close>: a number of seconds, or a list as
  \<open>handle_execute_code_class\<close> passes, of which the \<open>str()\<close> text is kept. The function
  formats the value into the timeout message and hands it to \<open>subprocess.run\<close>.
\<close>

datatype timeout_arg = Seconds int | AList string

fun timeout_text :: "timeout_arg \<Rightarrow> string" where
  "timeout_text (Seconds n) = str_int n"
| "timeout_text (AList t) = t"

text \<open>
  The exceptions the \<open>try\<close> block dispatches on, each with its \<open>str(e)\<close> text:
  \<open>subprocess.TimeoutExpired\<close>, \<open>PermissionError\<close>, and any other \<open>Exception\<close>.
\<close>

datatype exc = TimeoutExpired | PermissionError string | OtherException string

text \<open>
  What the operating system does during one call. Creating the temporary file either
  fails before \<open>temp_file\<close> is assigned, or yields a fresh name (a stem followed by the
  suffix \<open>.py\<close>) and then writes the code, which may fail too. \<open>subprocess.run\<close> either
  returns a completed process (return code, decoded stdout, decoded stderr) or raises.
\<close>

datatype tmp_event = TmpCreateFailed exc | TmpWriteFailed string exc | TmpCreated string

datatype run_event = Completed int string string | Raised exc

record exec_env =
  tmp :: tmp_event
  run :: run_event
  child_files :: "string set \<Rightarrow> string set"
    \<comment> \<open>what the child process did to the files that exist\<close>
  unlink :: "string option"
    \<comment> \<open>\<open>None\<close>: \<open>os.unlink\<close> succeeds; \<open>Some m\<close>: it raises an exception with text \<open>m\<close>\<close>
  elapsed :: nat
    \<comment> \<open>the rounded wall-clock time, in milliseconds\<close>

text \<open>
  \<open>subprocess.run\<close> hands the timeout to \<open>Popen.communicate\<close>, which adds it to the
  current time before it waits for the child. With a number the run ends as the
  environment has it. With a list the addition raises \<open>TypeError\<close>: unless spawning the
  child has already raised, the run gets no further, the child is killed and the
  \<open>TypeError\<close> is raised, whatever the child would have done.
\<close>

definition type_error_text :: string where
  "type_error_text = ''unsupported operand type(s) for +: '' @ [CHR 0x27] @ ''float'' @
     [CHR 0x27] @ '' and '' @ [CHR 0x27] @ ''list'' @ [CHR 0x27]"

definition run_outcome :: "exec_env \<Rightarrow> timeout_arg \<Rightarrow> run_event" where
  "run_outcome env timeout =
     (case timeout of
        Seconds n \<Rightarrow> run env
      | AList t \<Rightarrow>
          (case run env of
             Raised (PermissionError m) \<Rightarrow> Raised (PermissionError m)
           | Raised (OtherException m) \<Rightarrow> Raised (OtherException m)
           | Raised TimeoutExpired \<Rightarrow> Raised (OtherException type_error_text)
           | Completed rc out err \<Rightarrow> Raised (OtherException type_error_text)))"

record exec_result =
  success :: bool
  "output" :: string
  error :: string
  error_type :: "string option"
  return_code :: "int option"
  execution_time :: nat

definition initial_result :: exec_result where
  "initial_result = \<lparr>success = False, output = [], error = [], error_type = None,
     return_code = None, execution_time = 0\<rparr>"

definition tmp_name :: "string \<Rightarrow> string" where
  "tmp_name stem = stem @ ''.py''"

text \<open>The branch \<open>if process.returncode == 0: ... else: ...\<close> (lines 70-97).\<close>

definition process_results :: "bool \<Rightarrow> nat \<Rightarrow> int \<Rightarrow> string \<Rightarrow> string \<Rightarrow> exec_result \<Rightarrow> exec_result" where
  "process_results capture_stderr ms rc out err r0 =
    (let r = r0\<lparr>execution_time := ms, return_code := Some rc\<rparr> in
     if rc = 0 then
       (let r1 = r\<lparr>success := True, output := out\<rparr> in
        if err \<noteq> [] \<and> capture_stderr then
          (let stderr_content = strip err in
           if stderr_content \<noteq> [] then
             (if output r1 \<noteq> []
              then r1\<lparr>output := output r1 @ ''\<newline>[WARNINGS]\<newline>'' @ stderr_content\<rparr>
              else r1\<lparr>output := ''[WARNINGS]\<newline>'' @ stderr_content\<rparr>)
           else r1)
        else r1)
     else
       (let error_msg = (if err \<noteq> [] then err else ''Unknown execution error'') in
        r\<lparr>success := False, error_type := Some ''execution'', output := out,
          error := ''Execution failed (return code: '' @ str_int rc @ '')\<newline>'' @ strip error_msg\<rparr>))"

text \<open>The three \<open>except\<close> clauses (lines 99-124).\<close>

fun handle_exception :: "timeout_arg \<Rightarrow> nat \<Rightarrow> exc \<Rightarrow> exec_result \<Rightarrow> exec_result" where
  "handle_exception timeout ms TimeoutExpired r =
     r\<lparr>execution_time := ms, success := False, error_type := Some ''timeout'',
       error := ''Code execution timed out after '' @ timeout_text timeout @ '' seconds'',
       return_code := Some (- 1)\<rparr>"
| "handle_exception timeout ms (PermissionError m) r =
     r\<lparr>execution_time := ms, success := False, error_type := Some ''system'',
       error := ''Permission error: '' @ m, return_code := Some (- 1)\<rparr>"
| "handle_exception timeout ms (OtherException m) r =
     r\<lparr>execution_time := ms, success := False, error_type := Some ''system'',
       error := ''System error: '' @ m, return_code := Some (- 1)\<rparr>"

text \<open>
  The \<open>finally\<close> clause (lines 126-136): the file is removed when \<open>temp_file\<close> is set and
  the file exists; a failing \<open>os.unlink\<close> leaves the file and adds its text to \<open>error\<close>.
\<close>

definition cleanup :: "exec_env \<Rightarrow> string option \<Rightarrow> string set \<Rightarrow> exec_result \<Rightarrow> exec_result \<times> string set" where
  "cleanup env temp_file files r =
    (case temp_file of
       None \<Rightarrow> (r, files)
     | Some name \<Rightarrow>
        if name \<noteq> [] \<and> name \<in> files then
          (case unlink env of
             None \<Rightarrow> (r, files - {name})
           | Some m \<Rightarrow>
              if error r \<noteq> []
              then (r\<lparr>error := error r @ ''\<newline>[Cleanup warning: Could not delete temp file: '' @ m @ '']''\<rparr>, files)
              else (r\<lparr>error := ''Cleanup warning: Could not delete temp file: '' @ m\<rparr>, files))
        else (r, files))"

text \<open>
  \<open>execute_python_code(code, timeout, capture_stderr)\<close>, with the set of existing files
  passed in and returned. The working directory only reaches \<open>subprocess.run\<close>, whose
  outcome is the environment's.
\<close>

definition execute_python_code ::
  "exec_env \<Rightarrow> source \<Rightarrow> timeout_arg \<Rightarrow> bool \<Rightarrow> string set \<Rightarrow> exec_result \<times> string set" where
  "execute_python_code env code timeout capture_stderr files =
    (case code of
       NotStr \<Rightarrow>
         (initial_result\<lparr>error := ''Invalid or empty code provided'',
            error_type := Some ''input_validation''\<rparr>, files)
     | Str text \<Rightarrow>
         if strip text = [] then
           (initial_result\<lparr>error := ''Invalid or empty code provided'',
              error_type := Some ''input_validation''\<rparr>, files)
         else
           (case tmp env of
              TmpCreateFailed e \<Rightarrow>
                cleanup env None files (handle_exception timeout (elapsed env) e initial_result)
            | TmpWriteFailed stem e \<Rightarrow>
                cleanup env (Some (tmp_name stem)) (insert (tmp_name stem) files)
                  (handle_exception timeout (elapsed env) e initial_result)
            | TmpCreated stem \<Rightarrow>
                (case run_outcome env timeout of
                   Raised e \<Rightarrow>
                     cleanup env (Some (tmp_name stem))
                       (child_files env (insert (tmp_name stem) files))
                       (handle_exception timeout (elapsed env) e initial_result)
                 | Completed rc out err \<Rightarrow>
                     cleanup env (Some (tmp_name stem))
                       (child_files env (insert (tmp_name stem) files))
                       (process_results capture_stderr (elapsed env) rc out err initial_result))))"

section \<open>Properties of the executor\<close>

lemma contains_Nil [simp]: "contains [] s"
  by (cases s) auto

lemma contains_append_right: "contains sub s \<Longrightarrow> contains sub (s @ t)"
proof (induction s)
  case Nil
  then show ?case by simp
next
  case (Cons c cs)
  then show ?case using prefix_prefix [of sub "c # cs" t] by auto
qed

lemma contains_append_left: "contains sub t \<Longrightarrow> contains sub (s @ t)"
  by (induction s) auto

lemma contains_self: "contains s s"
  by (cases s) auto

lemma contains_middle: "contains sub (a @ sub @ b)"
  by (rule contains_append_left, rule contains_append_right, rule contains_self)

lemma strip_Nil [simp]: "strip [] = []"
  by (simp add: strip_def lstrip_def rstrip_def)

lemma cleanup_keeps:
  "success (fst (cleanup env t fs r)) = success r"
  "output (fst (cleanup env t fs r)) = output r"
  "error_type (fst (cleanup env t fs r)) = error_type r"
  "return_code (fst (cleanup env t fs r)) = return_code r"
  by (simp_all add: cleanup_def split: option.splits)

lemma cleanup_error_contains:
  "contains x (error r) \<Longrightarrow> contains x (error (fst (cleanup env t fs r)))"
  by (cases "error r = []") (auto simp: cleanup_def contains_append_right split: option.splits)

lemma cleanup_warning_appended:
  "contains (''Could not delete temp file: '' @ m)
     (e @ ''\<newline>[Cleanup warning: Could not delete temp file: '' @ m @ '']'')"
proof -
  have "contains (''Could not delete temp file: '' @ m)
     (''\<newline>[Cleanup warning: '' @ (''Could not delete temp file: '' @ m) @ '']'')"
    by (rule contains_middle)
  then show ?thesis
    using contains_append_left [of _ _ e] by simp
qed

lemma cleanup_warning_set:
  "contains (''Could not delete temp file: '' @ m)
     (''Cleanup warning: Could not delete temp file: '' @ m)"
proof -
  have "contains (''Could not delete temp file: '' @ m)
     (''Cleanup warning: '' @ (''Could not delete temp file: '' @ m) @ [])"
    by (rule contains_middle)
  then show ?thesis by simp
qed

lemma cleanup_files:
  "name \<noteq> [] \<Longrightarrow>
     name \<notin> snd (cleanup env (Some name) fs r) \<or> (\<exists>m. unlink env = Some m \<and>
        contains (''Could not delete temp file: '' @ m) (error (fst (cleanup env (Some name) fs r))))"
  using cleanup_warning_appended [of _ "error r"] cleanup_warning_set
  by (cases "unlink env") (simp_all add: cleanup_def)

lemma tmp_name_nonempty: "tmp_name stem \<noteq> []"
  by (simp add: tmp_name_def)

lemma execute_completed:
  "strip text \<noteq> [] \<Longrightarrow> tmp env = TmpCreated stem \<Longrightarrow>
   run_outcome env timeout = Completed rc out err \<Longrightarrow>
   execute_python_code env (Str text) timeout cs files =
     cleanup env (Some (tmp_name stem)) (child_files env (insert (tmp_name stem) files))
       (process_results cs (elapsed env) rc out err initial_result)"
  by (simp add: execute_python_code_def)

lemma execute_raised:
  "strip text \<noteq> [] \<Longrightarrow> tmp env = TmpCreated stem \<Longrightarrow> run_outcome env timeout = Raised e \<Longrightarrow>
   execute_python_code env (Str text) timeout cs files =
     cleanup env (Some (tmp_name stem)) (child_files env (insert (tmp_name stem) files))
       (handle_exception timeout (elapsed env) e initial_result)"
  by (simp add: execute_python_code_def)

lemma process_results_zero:
  "process_results cs ms 0 out err initial_result =
     initial_result\<lparr>execution_time := ms, return_code := Some 0, success := True,
        output := (if err \<noteq> [] \<and> cs \<and> strip err \<noteq> []
                   then (if out \<noteq> [] then out @ ''\<newline>[WARNINGS]\<newline>'' @ strip err
                         else ''[WARNINGS]\<newline>'' @ strip err)
                   else out)\<rparr>"
  by (simp add: process_results_def Let_def initial_result_def)

lemma process_results_nonzero:
  "rc \<noteq> 0 \<Longrightarrow> process_results cs ms rc out err initial_result =
     initial_result\<lparr>execution_time := ms, return_code := Some rc, success := False,
        error_type := Some ''execution'', output := out,
        error := ''Execution failed (return code: '' @ str_int rc @ '')\<newline>'' @
                 strip (if err \<noteq> [] then err else ''Unknown execution error'')\<rparr>"
  by (simp add: process_results_def Let_def initial_result_def)

subsection \<open>Concrete runs\<close>

definition env_clean :: exec_env where
  "env_clean = \<lparr>tmp = TmpCreated ''/tmp/tmpab12'', run = Completed 0 ''ok\<newline>'' [],
     child_files = id, unlink = None, elapsed = 12\<rparr>"

definition env_warning :: exec_env where
  "env_warning = env_clean\<lparr>run := Completed 0 ''ok\<newline>'' ''warn: x\<newline>''\<rparr>"

definition env_blank_stderr :: exec_env where
  "env_blank_stderr = env_clean\<lparr>run := Completed 0 ''ok\<newline>'' ''\<newline>''\<rparr>"

definition env_failing :: exec_env where
  "env_failing = env_clean\<lparr>run := Completed 1 [] ''ZeroDivisionError: division by zero\<newline>''\<rparr>"

definition env_timeout :: exec_env where
  "env_timeout = env_clean\<lparr>run := Raised TimeoutExpired\<rparr>"

definition env_timeout_locked :: exec_env where
  "env_timeout_locked = env_timeout\<lparr>unlink := Some ''busy''\<rparr>"

lemmas strip_defs = strip_def lstrip_def rstrip_def is_space_def

subsection \<open>Classification of a completed process\<close>

text \<open>
  Claim C2, as the code has it. For a non-blank source whose subprocess completes:
  with return code 0 and a stderr that is empty or blank, the result is a success with no
  error type and \<open>output\<close> equal to stdout unchanged; with return code 0, stderr capture
  on and a stderr that is not blank, it is a success and \<open>output\<close> is stdout followed by
  the marker \<open>[WARNINGS]\<close> and the stripped stderr; with a non-zero return code it is
  a failure of type \<open>execution\<close> whose error text contains the return code and the
  stripped stderr.
\<close>

theorem execute_python_code_classifies:
  "strip text \<noteq> [] \<Longrightarrow> tmp env = TmpCreated stem \<Longrightarrow>
   run_outcome env timeout = Completed rc out err \<Longrightarrow>
   r = fst (execute_python_code env (Str text) timeout capture_stderr files) \<Longrightarrow>
     (rc = 0 \<and> strip err = [] \<longrightarrow> success r \<and> error_type r = None \<and> output r = out) \<and>
     (rc = 0 \<and> strip err \<noteq> [] \<and> capture_stderr \<longrightarrow> success r \<and> error_type r = None \<and>
        output r = (if out = [] then ''[WARNINGS]\<newline>'' @ strip err
                    else out @ ''\<newline>[WARNINGS]\<newline>'' @ strip err)) \<and>
     (rc \<noteq> 0 \<longrightarrow> \<not> success r \<and> error_type r = Some ''execution'' \<and>
        contains (''return code: '' @ str_int rc) (error r) \<and> contains (strip err) (error r))"
proof -
  assume a: "strip text \<noteq> []" "tmp env = TmpCreated stem"
    "run_outcome env timeout = Completed rc out err"
    and r: "r = fst (execute_python_code env (Str text) timeout capture_stderr files)"
  note e = execute_completed [OF a]
  have zero: "rc = 0 \<Longrightarrow> success r \<and> error_type r = None \<and>
      output r = (if err \<noteq> [] \<and> capture_stderr \<and> strip err \<noteq> []
                   then (if out \<noteq> [] then out @ ''\<newline>[WARNINGS]\<newline>'' @ strip err
                         else ''[WARNINGS]\<newline>'' @ strip err)
                   else out)"
    by (simp add: r e cleanup_keeps process_results_zero) (simp add: initial_result_def)
  have nz1: "rc \<noteq> 0 \<Longrightarrow> \<not> success r \<and> error_type r = Some ''execution''"
    by (simp add: r e cleanup_keeps process_results_nonzero)
  have nz2: "rc \<noteq> 0 \<Longrightarrow> contains (''return code: '' @ str_int rc) (error r)"
    unfolding r e
    by (rule cleanup_error_contains)
      (simp add: process_results_nonzero contains_middle [of _ "''Execution failed (''", simplified])
  have nz3: "rc \<noteq> 0 \<Longrightarrow> contains (strip err) (error r)"
    unfolding r e
    by (rule cleanup_error_contains)
       (cases "err = []"; simp add: process_results_nonzero contains_append_left contains_self)
  show ?thesis using zero nz1 nz2 nz3 by auto
qed

theorem execute_python_code_classifies_witness:
  "success (fst (execute_python_code env_clean (Str ''print(1)'') (Seconds 50) True {})) \<and>
   output (fst (execute_python_code env_clean (Str ''print(1)'') (Seconds 50) True {})) = ''ok\<newline>'' \<and>
   output (fst (execute_python_code env_warning (Str ''print(1)'') (Seconds 50) True {})) =
     ''ok\<newline>\<newline>[WARNINGS]\<newline>warn: x'' \<and>
   \<not> success (fst (execute_python_code env_failing (Str ''1/0'') (Seconds 50) True {})) \<and>
   contains ''return code: 1''
     (error (fst (execute_python_code env_failing (Str ''1/0'') (Seconds 50) True {}))) \<and>
   contains ''ZeroDivisionError: division by zero''
     (error (fst (execute_python_code env_failing (Str ''1/0'') (Seconds 50) True {})))"
proof -
  have s1: "strip ''print(1)'' \<noteq> []" and s2: "strip ''1/0'' \<noteq> []"
    by (simp_all add: strip_defs)
  have e1: "strip ''warn: x\<newline>'' = ''warn: x''"
    "strip ''ZeroDivisionError: division by zero\<newline>'' = ''ZeroDivisionError: division by zero''"
    by (simp_all add: strip_defs)
  have n: "str_int 1 = ''1''"
    by (simp add: str_int_def str_nat.simps digit_char_def)
  note a = execute_python_code_classifies [OF s1, where env = env_clean and stem = "''/tmp/tmpab12''"
      and timeout = "Seconds 50" and rc = 0 and out = "''ok\<newline>''" and err = "[]"
      and capture_stderr = True and files = "{}", OF _ _ refl]
  note b = execute_python_code_classifies [OF s1, where env = env_warning and stem = "''/tmp/tmpab12''"
      and timeout = "Seconds 50" and rc = 0 and out = "''ok\<newline>''" and err = "''warn: x\<newline>''"
      and capture_stderr = True and files = "{}", OF _ _ refl]
  note c = execute_python_code_classifies [OF s2, where env = env_failing and stem = "''/tmp/tmpab12''"
      and timeout = "Seconds 50" and rc = 1 and out = "[]"
      and err = "''ZeroDivisionError: division by zero\<newline>''"
      and capture_stderr = True and files = "{}", OF _ _ refl]
  show ?thesis
    using a b c by (simp add: env_clean_def env_warning_def env_failing_def run_outcome_def e1 n)
qed

text \<open>
  Claim C2 as stated fails where stderr is not empty but blank: the process below exits
  with code 0 and writes a single line feed to stderr, and \<open>output\<close> is stdout alone, with
  no \<open>[WARNINGS]\<close> marker.
\<close>

theorem blank_stderr_counterexample:
  "run env_blank_stderr = Completed 0 ''ok\<newline>'' ''\<newline>'' \<and>
   success (fst (execute_python_code env_blank_stderr (Str ''print(1)'') (Seconds 50) True {})) \<and>
   output (fst (execute_python_code env_blank_stderr (Str ''print(1)'') (Seconds 50) True {})) =
     ''ok\<newline>'' \<and>
   \<not> contains ''[WARNINGS]''
     (output (fst (execute_python_code env_blank_stderr (Str ''print(1)'') (Seconds 50) True {})))"
  by (simp add: env_blank_stderr_def env_clean_def execute_python_code_def run_outcome_def
      strip_defs process_results_def initial_result_def cleanup_def tmp_name_def Let_def)

subsection \<open>Timeout and the temporary file\<close>

text \<open>
  Claim C3. For a non-blank source: when \<open>subprocess.run\<close> raises \<open>TimeoutExpired\<close>
  the result is a failure of type \<open>timeout\<close> with return code -1; and whatever happens
  after the temporary file got its name (a completed process, any exception of the run,
  a failed write), the file is gone afterwards unless \<open>os.unlink\<close> itself failed, in
  which case its message is part of the result's error text. When the file could not be
  created there is nothing to delete and the files are as before. The function returns a
  result in every case.
\<close>

theorem timeout_and_cleanup:
  "strip text \<noteq> [] \<Longrightarrow>
   (r, files') = execute_python_code env (Str text) timeout capture_stderr files \<Longrightarrow>
     (tmp env = TmpCreated stem \<and> run_outcome env timeout = Raised TimeoutExpired \<longrightarrow>
        \<not> success r \<and> error_type r = Some ''timeout'' \<and> return_code r = Some (- 1)) \<and>
     (tmp env = TmpCreated stem \<or> tmp env = TmpWriteFailed stem e \<longrightarrow>
        tmp_name stem \<notin> files' \<or>
        (\<exists>m. unlink env = Some m \<and> contains (''Could not delete temp file: '' @ m) (error r))) \<and>
     (tmp env = TmpCreateFailed e \<longrightarrow> files' = files)"
proof -
  assume a: "strip text \<noteq> []"
    and "(r, files') = execute_python_code env (Str text) timeout capture_stderr files"
  then have r: "r = fst (execute_python_code env (Str text) timeout capture_stderr files)"
    and f: "files' = snd (execute_python_code env (Str text) timeout capture_stderr files)"
    by (metis fst_conv, metis snd_conv)
  have t: "tmp env = TmpCreated stem \<Longrightarrow> run_outcome env timeout = Raised TimeoutExpired \<Longrightarrow>
        \<not> success r \<and> error_type r = Some ''timeout'' \<and> return_code r = Some (- 1)"
    by (simp add: r execute_raised [OF a] cleanup_keeps)
  have c: "tmp env = TmpCreated stem \<or> tmp env = TmpWriteFailed stem e \<Longrightarrow>
        tmp_name stem \<notin> files' \<or>
        (\<exists>m. unlink env = Some m \<and> contains (''Could not delete temp file: '' @ m) (error r))"
    unfolding r f using a cleanup_files [OF tmp_name_nonempty, of stem env]
    by (auto simp: execute_python_code_def split: run_event.splits)
  have n: "tmp env = TmpCreateFailed e \<Longrightarrow> files' = files"
    by (simp add: f execute_python_code_def a cleanup_def)
  show ?thesis using t c n by blast
qed

theorem timeout_and_cleanup_witness:
  "\<not> success (fst (execute_python_code env_timeout (Str ''while True: pass'') (Seconds 2) True {})) \<and>
   error_type (fst (execute_python_code env_timeout (Str ''while True: pass'') (Seconds 2) True {})) =
     Some ''timeout'' \<and>
   return_code (fst (execute_python_code env_timeout (Str ''while True: pass'') (Seconds 2) True {})) =
     Some (- 1) \<and>
   ''/tmp/tmpab12.py'' \<notin>
     snd (execute_python_code env_timeout (Str ''while True: pass'') (Seconds 2) True {}) \<and>
   ''/tmp/tmpab12.py'' \<in>
     snd (execute_python_code env_timeout_locked (Str ''while True: pass'') (Seconds 2) True {}) \<and>
   contains ''Could not delete temp file: busy''
     (error (fst (execute_python_code env_timeout_locked (Str ''while True: pass'') (Seconds 2) True {})))"
proof -
  have s: "strip ''while True: pass'' \<noteq> []"
    by (simp add: strip_defs)
  have k: "''/tmp/tmpab12.py'' \<in>
     snd (execute_python_code env_timeout_locked (Str ''while True: pass'') (Seconds 2) True {})"
    by (simp add: env_timeout_locked_def env_timeout_def env_clean_def execute_python_code_def
        run_outcome_def strip_defs cleanup_def tmp_name_def initial_result_def)
  note a = timeout_and_cleanup [OF s, of _ _ env_timeout "Seconds 2" True "{}" "''/tmp/tmpab12''",
      OF prod.collapse]
  note b = timeout_and_cleanup [OF s, of _ _ env_timeout_locked "Seconds 2" True "{}" "''/tmp/tmpab12''",
      OF prod.collapse]
  show ?thesis
    using a b k
    by (simp add: env_timeout_locked_def env_timeout_def env_clean_def run_outcome_def tmp_name_def)
qed

subsection \<open>The return code of a rejected source\<close>

text \<open>
  Claim C9 says that \<open>return_code\<close> is an integer on every path. On the input
  validation path (a blank source, or a source that is not a string) the field keeps its
  initial value \<open>None\<close>: every other failure path stores -1.
\<close>

theorem blank_code_has_no_return_code:
  "return_code (fst (execute_python_code env (Str '' '') timeout capture_stderr files)) = None \<and>
   return_code (fst (execute_python_code env NotStr timeout capture_stderr files)) = None \<and>
   error_type (fst (execute_python_code env (Str '' '') timeout capture_stderr files)) =
     Some ''input_validation''"
  by (simp add: execute_python_code_def initial_result_def strip_defs)

section \<open>The response parser (prompt_util.py)\<close>

text \<open>
  \<open>extract_code_and_dependencies\<close> applies two regular expressions with the flag
  \<open>DOTALL\<close>: a fence of three backquotes followed by \<open>code\<close> (or \<open>dependencies\<close>), then
  \<open>\s*\<close>, then the lazy group \<open>(.*?)\<close>, then a closing fence. The functions below
  follow the matcher: \<open>re.search\<close> tries the pattern at each position from the left,
  \<open>\s*\<close> takes as much white space as there is and gives it back one character at a
  time, and the lazy group grows until a fence follows.
\<close>

definition fence :: string where
  "fence = ''```''"

text \<open>
  The lazy group and the closing fence, from the start of a text: the shortest text that
  a fence follows, and what comes after that fence.
\<close>

fun lazy_until_fence :: "string \<Rightarrow> (string \<times> string) option" where
  "lazy_until_fence [] = None"
| "lazy_until_fence (c # cs) =
     (if prefix fence (c # cs) then Some ([], drop (length fence) (c # cs))
      else map_option (\<lambda>(g, rest). (c # g, rest)) (lazy_until_fence cs))"

text \<open>\<open>\s*\<close> having taken \<open>k\<close> characters; when the rest cannot match, one fewer.\<close>

fun ws_backtrack :: "nat \<Rightarrow> string \<Rightarrow> (string \<times> string) option" where
  "ws_backtrack 0 s = lazy_until_fence s"
| "ws_backtrack (Suc k) s =
     (case lazy_until_fence (drop (Suc k) s) of
        Some m \<Rightarrow> Some m
      | None \<Rightarrow> ws_backtrack k s)"

text \<open>The whole pattern at the start of a text: the group and the text after the match.\<close>

definition match_block :: "string \<Rightarrow> string \<Rightarrow> (string \<times> string) option" where
  "match_block tag s =
     (if prefix (fence @ tag) s
      then (let rest = drop (length (fence @ tag)) s
            in ws_backtrack (length (takeWhile is_space rest)) rest)
      else None)"

text \<open>\<open>re.search\<close>: the leftmost match.\<close>

fun search_block :: "string \<Rightarrow> string \<Rightarrow> (string \<times> string) option" where
  "search_block tag [] = None"
| "search_block tag (c # cs) =
     (case match_block tag (c # cs) of
        Some m \<Rightarrow> Some m
      | None \<Rightarrow> search_block tag cs)"

text \<open>A match consumes text, so scanning on after it terminates.\<close>

lemma lazy_until_fence_shorter:
  "lazy_until_fence s = Some (g, rest) \<Longrightarrow> length rest < length s"
  by (induction s arbitrary: g) (auto simp: fence_def split: if_splits)

lemma ws_backtrack_shorter:
  "ws_backtrack k s = Some (g, rest) \<Longrightarrow> length rest < length s"
proof (induction k)
  case 0
  then show ?case by (simp add: lazy_until_fence_shorter)
next
  case (Suc k)
  then show ?case
    using lazy_until_fence_shorter [of "drop (Suc k) s" g rest]
    by (auto split: option.splits)
qed

lemma match_block_shorter:
  assumes "match_block tag s = Some (g, rest)"
  shows "length rest < length s"
proof -
  from assms obtain k where "ws_backtrack k (drop (length (fence @ tag)) s) = Some (g, rest)"
    by (auto simp: match_block_def Let_def split: if_splits)
  then have "length rest < length (drop (length (fence @ tag)) s)"
    by (rule ws_backtrack_shorter)
  then show ?thesis by simp
qed

text \<open>\<open>re.findall\<close>: the groups of the matches, left to right, without overlap.\<close>

function findall_blocks :: "string \<Rightarrow> string \<Rightarrow> string list" where
  "findall_blocks tag [] = []"
| "findall_blocks tag (c # cs) =
     (case match_block tag (c # cs) of
        Some (g, rest) \<Rightarrow> g # findall_blocks tag rest
      | None \<Rightarrow> findall_blocks tag cs)"
  by pat_completeness auto
termination
  by (relation "measure (\<lambda>(tag, s). length s)") (auto dest: match_block_shorter)

text \<open>
  \<open>str.splitlines()\<close>: the line boundaries among the code points 0..255; a carriage
  return followed by a line feed is one boundary, and a final boundary opens no line.
\<close>

definition is_line_boundary :: "char \<Rightarrow> bool" where
  "is_line_boundary c = (c \<in> set [CHR 0x0A, CHR 0x0B, CHR 0x0C, CHR 0x0D,
      CHR 0x1C, CHR 0x1D, CHR 0x1E, CHR 0x85])"

fun splitlines_from :: "string \<Rightarrow> string \<Rightarrow> string list" where
  "splitlines_from cur [] = (if cur = [] then [] else [cur])"
| "splitlines_from cur (c # cs) =
     (if c = CHR 0x0D then
        (case cs of
           d # ds \<Rightarrow> if d = CHR 0x0A then cur # splitlines_from [] ds
                     else cur # splitlines_from [] cs
         | [] \<Rightarrow> cur # splitlines_from [] cs)
      else if is_line_boundary c then cur # splitlines_from [] cs
      else splitlines_from (cur @ [c]) cs)"

definition splitlines :: "string \<Rightarrow> string list" where
  "splitlines s = splitlines_from [] s"

text \<open>
  The dictionary returned; \<open>p_success\<close> and \<open>p_error\<close> are its keys \<open>success\<close> and
  \<open>error\<close>.
\<close>

record parse_result =
  p_success :: bool
  code :: string
  dependencies :: "string list"
  p_error :: string

text \<open>The loop over \<open>deps_match\<close>, extending the list \<open>dependencies\<close>.\<close>

fun extend_dependencies :: "string list \<Rightarrow> string list \<Rightarrow> string list" where
  "extend_dependencies deps [] = deps"
| "extend_dependencies deps (dep_block # bs) =
     extend_dependencies (deps @ map strip (filter (\<lambda>line. strip line \<noteq> []) (splitlines dep_block))) bs"

text \<open>
  On a string neither regular expression call raises, so the \<open>except\<close> clause is not
  reached.
\<close>

definition extract_code_and_dependencies :: "string \<Rightarrow> parse_result" where
  "extract_code_and_dependencies llm_response =
     (let code_match = search_block ''code'' llm_response;
          deps_match = findall_blocks ''dependencies'' llm_response
      in case code_match of
           None \<Rightarrow> \<lparr>p_success = False, code = [], dependencies = [], p_error = ''Code block not found''\<rparr>
         | Some (g, rest) \<Rightarrow>
             \<lparr>p_success = True, code = strip g,
              dependencies = extend_dependencies [] deps_match, p_error = []\<rparr>)"

subsection \<open>Facts about the matcher\<close>

lemma lazy_until_fence_split:
  "lazy_until_fence s = Some (g, rest) \<Longrightarrow> s = g @ fence @ rest"
proof (induction s arbitrary: g)
  case Nil
  then show ?case by simp
next
  case (Cons c cs)
  show ?case
  proof (cases "prefix fence (c # cs)")
    case True
    with Cons.prems show ?thesis by (auto simp: prefix_def)
  next
    case False
    with Cons.prems obtain g' where "lazy_until_fence cs = Some (g', rest)" "g = c # g'"
      by auto
    with Cons.IH show ?thesis by simp
  qed
qed

lemma lazy_until_fence_finds: "lazy_until_fence (a @ fence @ b) \<noteq> None"
  by (induction a) (auto simp: fence_def)

lemma lazy_until_fence_first:
  "CHR 0x60 \<notin> set a \<Longrightarrow> lazy_until_fence (a @ fence @ b) = Some (a, b)"
  by (induction a) (auto simp: fence_def)

lemma ws_backtrack_some:
  "ws_backtrack k s = Some m \<Longrightarrow> \<exists>j. lazy_until_fence (drop j s) = Some m"
proof (induction k)
  case 0
  then show ?case by (metis drop0 ws_backtrack.simps(1))
next
  case (Suc k)
  then show ?case by (auto split: option.splits)
qed

lemma ws_backtrack_finds:
  "lazy_until_fence s \<noteq> None \<Longrightarrow> ws_backtrack k s \<noteq> None"
  by (induction k) (auto split: option.splits)

lemma ws_backtrack_greedy:
  "lazy_until_fence (drop k s) = Some m \<Longrightarrow> ws_backtrack k s = Some m"
  by (cases k) auto

lemma match_block_finds: "match_block tag (fence @ tag @ mid @ fence @ post) \<noteq> None"
  using ws_backtrack_finds [OF lazy_until_fence_finds [of mid post]]
  by (simp add: match_block_def Let_def)

lemma match_block_split:
  assumes "match_block tag s = Some (g, rest)"
  shows "\<exists>mid. s = fence @ tag @ mid @ fence @ rest"
proof -
  from assms have p: "prefix (fence @ tag) s"
    and "\<exists>k. ws_backtrack k (drop (length (fence @ tag)) s) = Some (g, rest)"
    by (auto simp: match_block_def Let_def split: if_splits)
  then obtain j where "lazy_until_fence (drop j (drop (length (fence @ tag)) s)) = Some (g, rest)"
    using ws_backtrack_some by blast
  then have "drop j (drop (length (fence @ tag)) s) = g @ fence @ rest"
    by (rule lazy_until_fence_split)
  then have "drop (length (fence @ tag)) s = take j (drop (length (fence @ tag)) s) @ g @ fence @ rest"
    by (metis append_take_drop_id)
  moreover from p have "s = (fence @ tag) @ drop (length (fence @ tag)) s"
    by (auto simp: prefix_def)
  ultimately have "s = fence @ tag @ (take j (drop (length (fence @ tag)) s) @ g) @ fence @ rest"
    by (metis append.assoc)
  then show ?thesis by blast
qed

lemma takeWhile_space_before_fence:
  "CHR 0x60 \<notin> set mid \<Longrightarrow>
   takeWhile is_space (mid @ fence @ post) = takeWhile is_space mid"
  by (induction mid) (auto simp: fence_def is_space_def)

lemma match_block_first:
  assumes "CHR 0x60 \<notin> set mid"
  shows "match_block tag (fence @ tag @ mid @ fence @ post) = Some (lstrip mid, post)"
proof -
  let ?rest = "mid @ fence @ post"
  let ?k = "length (takeWhile is_space ?rest)"
  have k: "?k = length (takeWhile is_space mid)"
    using assms by (simp add: takeWhile_space_before_fence)
  have "drop ?k ?rest = dropWhile is_space mid @ fence @ post"
    unfolding k by (metis append_eq_conv_conj append.assoc takeWhile_dropWhile_id)
  moreover have "CHR 0x60 \<notin> set (dropWhile is_space mid)"
    using assms set_dropWhileD by fastforce
  ultimately have "lazy_until_fence (drop ?k ?rest) = Some (lstrip mid, post)"
    by (simp add: lazy_until_fence_first lstrip_def)
  then have "ws_backtrack ?k ?rest = Some (lstrip mid, post)"
    by (rule ws_backtrack_greedy)
  then show ?thesis by (simp add: match_block_def)
qed

lemma match_block_needs_backtick:
  "c \<noteq> CHR 0x60 \<Longrightarrow> match_block tag (c # cs) = None"
  by (simp add: match_block_def fence_def)

lemma search_block_finds:
  "search_block tag (pre @ fence @ tag @ mid @ fence @ post) \<noteq> None"
proof (induction pre)
  case Nil
  have "fence @ tag @ mid @ fence @ post \<noteq> []" by (simp add: fence_def)
  then obtain c cs where e: "fence @ tag @ mid @ fence @ post = c # cs"
    by (cases "fence @ tag @ mid @ fence @ post") auto
  show ?case using match_block_finds [of tag mid post] unfolding append_Nil e
    by (auto split: option.splits)
next
  case (Cons c pre)
  then show ?case by (auto split: option.splits)
qed

lemma search_block_split:
  "search_block tag s = Some (g, rest) \<Longrightarrow> \<exists>pre mid. s = pre @ fence @ tag @ mid @ fence @ rest"
proof (induction s)
  case Nil
  then show ?case by simp
next
  case (Cons c cs)
  show ?case
  proof (cases "match_block tag (c # cs)")
    case None
    with Cons obtain pre mid where "cs = pre @ fence @ tag @ mid @ fence @ rest" by auto
    then have "c # cs = (c # pre) @ fence @ tag @ mid @ fence @ rest" by simp
    then show ?thesis by blast
  next
    case (Some m)
    with Cons.prems have "match_block tag (c # cs) = Some (g, rest)" by simp
    then obtain mid where "c # cs = [] @ fence @ tag @ mid @ fence @ rest"
      using match_block_split by fastforce
    then show ?thesis by blast
  qed
qed

lemma search_block_skips:
  "CHR 0x60 \<notin> set pre \<Longrightarrow> search_block tag (pre @ x) = search_block tag x"
  by (induction pre) (auto simp: match_block_needs_backtick)

lemma search_block_first:
  assumes "CHR 0x60 \<notin> set pre" "CHR 0x60 \<notin> set mid"
  shows "search_block tag (pre @ fence @ tag @ mid @ fence @ post) = Some (lstrip mid, post)"
proof -
  have "fence @ tag @ mid @ fence @ post \<noteq> []" by (simp add: fence_def)
  then obtain c cs where e: "fence @ tag @ mid @ fence @ post = c # cs"
    by (cases "fence @ tag @ mid @ fence @ post") auto
  have "search_block tag (c # cs) = Some (lstrip mid, post)"
    using match_block_first [OF assms(2), of tag post] unfolding e by simp
  then show ?thesis
    using search_block_skips [OF assms(1)] e by simp
qed

lemma search_block_needs_tag:
  "\<not> contains (fence @ tag) s \<Longrightarrow> search_block tag s = None"
  by (induction s) (auto simp: match_block_def)

lemma extend_dependencies_concat:
  "extend_dependencies deps bs =
     deps @ concat (map (\<lambda>b. map strip (filter (\<lambda>line. strip line \<noteq> []) (splitlines b))) bs)"
  by (induction bs arbitrary: deps) auto

lemma findall_blocks_skips:
  "CHR 0x60 \<notin> set pre \<Longrightarrow> findall_blocks tag (pre @ x) = findall_blocks tag x"
  by (induction pre) (auto simp: match_block_needs_backtick)

lemma findall_blocks_first:
  assumes "CHR 0x60 \<notin> set pre" "CHR 0x60 \<notin> set body"
  shows "findall_blocks tag (pre @ fence @ tag @ body @ fence @ post) =
    lstrip body # findall_blocks tag post"
proof -
  have "fence @ tag @ body @ fence @ post \<noteq> []" by (simp add: fence_def)
  then obtain c cs where e: "fence @ tag @ body @ fence @ post = c # cs"
    by (cases "fence @ tag @ body @ fence @ post") auto
  have "findall_blocks tag (c # cs) = lstrip body # findall_blocks tag post"
    using match_block_first [OF assms(2), of tag post] unfolding e by simp
  then show ?thesis
    using findall_blocks_skips [OF assms(1)] e by simp
qed

subsection \<open>Sample responses\<close>

definition sample_response :: string where
  "sample_response = ''Here: ```code\<newline> print(1) \<newline>``` needs ```dependencies\<newline>numpy\<newline>\<newline> pandas \<newline>``` and ```dependencies\<newline>numpy\<newline>```''"

definition dependencies_first_response :: string where
  "dependencies_first_response =
     ''Needs ```dependencies\<newline>numpy\<newline>``` then ```code\<newline>print(1)\<newline>```''"

definition python_fence_response :: string where
  "python_fence_response = ''```python\<newline>print(1)\<newline>```''"

definition codex_fence_response :: string where
  "codex_fence_response = ''```codex\<newline>print(1)\<newline>```''"

subsection \<open>What the parser returns\<close>

text \<open>
  Claim C7. When the text holds no opening fence tagged \<open>code\<close> with a closing fence
  after it, the result is the failure dictionary with the error \<open>Code block not found\<close>.
  When it holds one, the result is a success with an empty error, the code is the
  stripped group of the leftmost match, and the dependencies are the stripped non-blank
  lines of the dependency blocks, block after block in the order of the text, nothing
  removed. Where no backquote stands before the opening fence or inside the block, the
  code is the stripped text between the two fences; and where the text opens in that
  way with a dependency block, the dependencies are the lines of that block followed by
  those of the blocks found after it.
\<close>

theorem extract_code_and_dependencies_result:
  "((\<nexists>pre mid post. s = pre @ fence @ ''code'' @ mid @ fence @ post) \<longrightarrow>
      extract_code_and_dependencies s =
        \<lparr>p_success = False, code = [], dependencies = [], p_error = ''Code block not found''\<rparr>) \<and>
   ((\<exists>pre mid post. s = pre @ fence @ ''code'' @ mid @ fence @ post) \<longrightarrow>
      p_success (extract_code_and_dependencies s) \<and>
      p_error (extract_code_and_dependencies s) = [] \<and>
      (\<exists>g rest. search_block ''code'' s = Some (g, rest) \<and>
         code (extract_code_and_dependencies s) = strip g) \<and>
      dependencies (extract_code_and_dependencies s) =
        concat (map (\<lambda>b. map strip (filter (\<lambda>line. strip line \<noteq> []) (splitlines b)))
          (findall_blocks ''dependencies'' s))) \<and>
   (\<forall>pre mid post. s = pre @ fence @ ''code'' @ mid @ fence @ post \<and>
        CHR 0x60 \<notin> set pre \<and> CHR 0x60 \<notin> set mid \<longrightarrow>
      code (extract_code_and_dependencies s) = strip mid) \<and>
   (\<forall>pre body post. s = pre @ fence @ ''dependencies'' @ body @ fence @ post \<and>
        CHR 0x60 \<notin> set pre \<and> CHR 0x60 \<notin> set body \<and>
        p_success (extract_code_and_dependencies s) \<longrightarrow>
      dependencies (extract_code_and_dependencies s) =
        map strip (filter (\<lambda>line. strip line \<noteq> []) (splitlines (lstrip body))) @
        concat (map (\<lambda>b. map strip (filter (\<lambda>line. strip line \<noteq> []) (splitlines b)))
          (findall_blocks ''dependencies'' post)))"
proof (intro conjI impI allI)
  assume "\<nexists>pre mid post. s = pre @ fence @ ''code'' @ mid @ fence @ post"
  then have "search_block ''code'' s = None"
    using search_block_split [of "''code''" s] by (cases "search_block ''code'' s") auto
  then show "extract_code_and_dependencies s =
        \<lparr>p_success = False, code = [], dependencies = [], p_error = ''Code block not found''\<rparr>"
    by (simp add: extract_code_and_dependencies_def)
next
  assume "\<exists>pre mid post. s = pre @ fence @ ''code'' @ mid @ fence @ post"
  then obtain g rest where m: "search_block ''code'' s = Some (g, rest)"
    using search_block_finds [of "''code''"] by fastforce
  show "p_success (extract_code_and_dependencies s)"
    and "p_error (extract_code_and_dependencies s) = []"
    and "\<exists>g rest. search_block ''code'' s = Some (g, rest) \<and>
         code (extract_code_and_dependencies s) = strip g"
    and "dependencies (extract_code_and_dependencies s) =
        concat (map (\<lambda>b. map strip (filter (\<lambda>line. strip line \<noteq> []) (splitlines b)))
          (findall_blocks ''dependencies'' s))"
    by (simp_all add: extract_code_and_dependencies_def m extend_dependencies_concat)
next
  fix pre mid post
  assume "s = pre @ fence @ ''code'' @ mid @ fence @ post \<and>
        CHR 0x60 \<notin> set pre \<and> CHR 0x60 \<notin> set mid"
  then have "search_block ''code'' s = Some (lstrip mid, post)"
    using search_block_first by blast
  then show "code (extract_code_and_dependencies s) = strip mid"
    by (simp add: extract_code_and_dependencies_def strip_def lstrip_def)
next
  fix pre body post
  assume a: "s = pre @ fence @ ''dependencies'' @ body @ fence @ post \<and>
        CHR 0x60 \<notin> set pre \<and> CHR 0x60 \<notin> set body \<and>
        p_success (extract_code_and_dependencies s)"
  then have "findall_blocks ''dependencies'' s =
      lstrip body # findall_blocks ''dependencies'' post"
    using findall_blocks_first by blast
  moreover from a have "search_block ''code'' s \<noteq> None"
    by (auto simp: extract_code_and_dependencies_def split: option.splits)
  ultimately show "dependencies (extract_code_and_dependencies s) =
        map strip (filter (\<lambda>line. strip line \<noteq> []) (splitlines (lstrip body))) @
        concat (map (\<lambda>b. map strip (filter (\<lambda>line. strip line \<noteq> []) (splitlines b)))
          (findall_blocks ''dependencies'' post))"
    by (auto simp: extract_code_and_dependencies_def extend_dependencies_concat)
qed

lemma decomposition_contains: "s = pre @ x @ y \<Longrightarrow> contains x s"
  by (simp add: contains_middle)

theorem extract_code_and_dependencies_result_witness:
  "p_success (extract_code_and_dependencies sample_response) \<and>
   code (extract_code_and_dependencies sample_response) = ''print(1)'' \<and>
   dependencies (extract_code_and_dependencies sample_response) = [''numpy'', ''pandas'', ''numpy''] \<and>
   dependencies (extract_code_and_dependencies dependencies_first_response) = [''numpy''] \<and>
   extract_code_and_dependencies python_fence_response =
     \<lparr>p_success = False, code = [], dependencies = [], p_error = ''Code block not found''\<rparr>"
proof -
  have d: "sample_response = ''Here: '' @ fence @ ''code'' @ ''\<newline> print(1) \<newline>'' @ fence @
     '' needs ```dependencies\<newline>numpy\<newline>\<newline> pandas \<newline>``` and ```dependencies\<newline>numpy\<newline>```''"
    by (simp add: sample_response_def fence_def)
  have b: "CHR 0x60 \<notin> set ''Here: ''" "CHR 0x60 \<notin> set ''\<newline> print(1) \<newline>''"
    by simp_all
  have st: "strip ''\<newline> print(1) \<newline>'' = ''print(1)''"
    by (simp add: strip_defs)
  have fa: "concat (map (\<lambda>b. map strip (filter (\<lambda>line. strip line \<noteq> []) (splitlines b)))
          (findall_blocks ''dependencies'' sample_response)) = [''numpy'', ''pandas'', ''numpy'']"
    by code_simp
  have n: "\<nexists>pre mid post. python_fence_response = pre @ fence @ ''code'' @ mid @ fence @ post"
  proof
    assume "\<exists>pre mid post. python_fence_response = pre @ fence @ ''code'' @ mid @ fence @ post"
    then obtain pre mid post where
      "python_fence_response = pre @ (fence @ ''code'') @ (mid @ fence @ post)" by auto
    then have "contains (fence @ ''code'') python_fence_response"
      by (rule decomposition_contains)
    then show False by (simp add: python_fence_response_def fence_def)
  qed
  have d3: "dependencies_first_response = ''Needs '' @ fence @ ''dependencies'' @ ''\<newline>numpy\<newline>'' @ fence @
     '' then ```code\<newline>print(1)\<newline>```''"
    by (simp add: dependencies_first_response_def fence_def)
  have b3: "CHR 0x60 \<notin> set ''Needs ''" "CHR 0x60 \<notin> set ''\<newline>numpy\<newline>''"
    by simp_all
  have s3: "p_success (extract_code_and_dependencies dependencies_first_response)"
    by code_simp
  have f3: "map strip (filter (\<lambda>line. strip line \<noteq> []) (splitlines (lstrip ''\<newline>numpy\<newline>''))) @
        concat (map (\<lambda>b. map strip (filter (\<lambda>line. strip line \<noteq> []) (splitlines b)))
          (findall_blocks ''dependencies'' '' then ```code\<newline>print(1)\<newline>```'')) = [''numpy'']"
    by code_simp
  note t3 = extract_code_and_dependencies_result [of dependencies_first_response]
  from t3 d3 b3 s3 have "dependencies (extract_code_and_dependencies dependencies_first_response) =
      map strip (filter (\<lambda>line. strip line \<noteq> []) (splitlines (lstrip ''\<newline>numpy\<newline>''))) @
        concat (map (\<lambda>b. map strip (filter (\<lambda>line. strip line \<noteq> []) (splitlines b)))
          (findall_blocks ''dependencies'' '' then ```code\<newline>print(1)\<newline>```''))"
    by blast
  then have r3: "dependencies (extract_code_and_dependencies dependencies_first_response) = [''numpy'']"
    by (simp only: f3)
  note t1 = extract_code_and_dependencies_result [of sample_response]
  note t2 = extract_code_and_dependencies_result [of python_fence_response]
  from t1 d b have "code (extract_code_and_dependencies sample_response) = strip ''\<newline> print(1) \<newline>''"
    by blast
  moreover from t1 d have "p_success (extract_code_and_dependencies sample_response)" 
    "dependencies (extract_code_and_dependencies sample_response) =
        concat (map (\<lambda>b. map strip (filter (\<lambda>line. strip line \<noteq> []) (splitlines b)))
          (findall_blocks ''dependencies'' sample_response))"
    by blast+
  moreover from t2 n have "extract_code_and_dependencies python_fence_response =
     \<lparr>p_success = False, code = [], dependencies = [], p_error = ''Code block not found''\<rparr>"
    by blast
  ultimately show ?thesis by (simp add: st fa r3)
qed

text \<open>
  Claim C10, as the code has it: a text in which three backquotes followed by \<open>code\<close>
  never occur (a fence tagged \<open>python\<close>, or with no tag) gives the failure dictionary.
\<close>

theorem untagged_fence_not_found:
  "\<not> contains (fence @ ''code'') s \<Longrightarrow>
   extract_code_and_dependencies s =
     \<lparr>p_success = False, code = [], dependencies = [], p_error = ''Code block not found''\<rparr>"
  by (simp add: extract_code_and_dependencies_def search_block_needs_tag)

theorem untagged_fence_not_found_witness:
  "\<not> contains (fence @ ''code'') python_fence_response \<and>
   extract_code_and_dependencies python_fence_response =
     \<lparr>p_success = False, code = [], dependencies = [], p_error = ''Code block not found''\<rparr>"
proof -
  have c: "\<not> contains (fence @ ''code'') python_fence_response"
    by (simp add: python_fence_response_def fence_def)
  show ?thesis
    using c untagged_fence_not_found [OF c] by simp
qed

text \<open>
  Claim C10 as stated fails for a tag that only begins with \<open>code\<close>: the fence tagged
  \<open>codex\<close> is accepted, and the rest of the tag becomes part of the code.
\<close>

theorem codex_fence_counterexample:
  "p_success (extract_code_and_dependencies codex_fence_response) \<and>
   code (extract_code_and_dependencies codex_fence_response) = ''x\<newline>print(1)'' \<and>
   p_error (extract_code_and_dependencies codex_fence_response) = []"
  by code_simp

section \<open>The dependency reconciler (depend.py)\<close>

text \<open>\<open>str.lower()\<close> on the code points 0..255: the letters A-Z and the capital letters
  of Latin-1 (0xC0..0xDE without the multiplication sign) move up by 32.\<close>

definition lower_char :: "char \<Rightarrow> char" where
  "lower_char c =
     (let n = (of_char c :: nat)
      in if (65 \<le> n \<and> n \<le> 90) \<or> (192 \<le> n \<and> n \<le> 222 \<and> n \<noteq> 215)
         then char_of (n + 32) else c)"

definition lower :: "string \<Rightarrow> string" where
  "lower s = map lower_char s"

text \<open>\<open>s.split(sep)[0]\<close> for a separator that is not empty: the text before the first
  occurrence of \<open>sep\<close>, or all of \<open>s\<close> when there is none.\<close>

fun split_head :: "string \<Rightarrow> string \<Rightarrow> string" where
  "split_head sep [] = []"
| "split_head sep (c # cs) = (if prefix sep (c # cs) then [] else c # split_head sep cs)"

text \<open>The chain of six splits that both \<open>read_requirements\<close> and
  \<open>find_missing_dependencies\<close> apply, and the \<open>strip()\<close> that follows it.\<close>

definition split_chain :: "string \<Rightarrow> string" where
  "split_chain s = split_head ''~='' (split_head ''<'' (split_head ''>'' (split_head ''<=''
       (split_head ''>='' (split_head ''=='' s)))))"

definition package_name :: "string \<Rightarrow> string" where
  "package_name s = strip (split_chain s)"

text \<open>
  Iterating over a file opened in text mode: the lines of the content, each ending in a
  line feed but possibly the last; a carriage return, alone or before a line feed, ends
  a line as a line feed does (universal newlines).
\<close>

fun file_lines_from :: "string \<Rightarrow> string \<Rightarrow> string list" where
  "file_lines_from cur [] = (if cur = [] then [] else [cur])"
| "file_lines_from cur (c # cs) =
     (if c = CHR 0x0A then (cur @ ''\<newline>'') # file_lines_from [] cs
      else if c = CHR 0x0D then
        (case cs of
           d # ds \<Rightarrow> if d = CHR 0x0A then (cur @ ''\<newline>'') # file_lines_from [] ds
                     else (cur @ ''\<newline>'') # file_lines_from [] cs
         | [] \<Rightarrow> (cur @ ''\<newline>'') # file_lines_from [] cs)
      else file_lines_from (cur @ [c]) cs)"

definition file_lines :: "string \<Rightarrow> string list" where
  "file_lines content = file_lines_from [] content"

text \<open>
  An exception raised by a file operation either is an \<open>OSError\<close> (which \<open>IOError\<close>
  names, and \<open>except IOError\<close> catches) or is not, as \<open>UnicodeDecodeError\<close>; each with
  its text. The manifest itself is its content, or \<open>None\<close> when
  \<open>requirements_path.exists()\<close> finds no file.

  What can go wrong with a manifest that is there: \<open>exists()\<close> raises the \<open>OSError\<close> of
  its \<open>stat\<close> call (any but a missing file, as permission denied on the directory),
  on line 19, before the \<open>try\<close> block is entered; or opening or reading the file raises
  inside the \<open>try\<close> block, after some number of lines were read.

  The environment of one call: whether looking at or reading the manifest raises;
  whether writing it raises, and what the file holds afterwards; and how the run of pip
  ends.
\<close>

datatype io_exc = OSError string | NotOSError string

datatype manifest_fault = ExistsRaised string | ReadRaised nat io_exc

datatype install_event = Installed string | CalledProcessError int string string | InstallRaised string

record dep_env =
  read_fault :: "manifest_fault option"
  write_fault :: "(io_exc \<times> string option) option"
  install :: install_event

text \<open>The loop over the lines of the manifest (lines 22-28).\<close>

fun add_packages :: "string set \<Rightarrow> string list \<Rightarrow> string set" where
  "add_packages existing_packages [] = existing_packages"
| "add_packages existing_packages (raw # ls) =
     (let line = strip raw
      in if line \<noteq> [] \<and> \<not> prefix ''#'' line
         then add_packages (insert (lower (package_name line)) existing_packages) ls
         else add_packages existing_packages ls)"

text \<open>
  \<open>read_requirements\<close>: the test \<open>requirements_path.exists()\<close> stands outside the
  \<open>try\<close> block, so what it raises leaves the function; inside, \<open>except IOError\<close> keeps
  the names read so far, and any other exception leaves the function.
\<close>

definition read_requirements :: "dep_env \<Rightarrow> string option \<Rightarrow> io_exc + string set" where
  "read_requirements env manifest =
     (case manifest of
        None \<Rightarrow> Inr {}
      | Some content \<Rightarrow>
          (case read_fault env of
             None \<Rightarrow> Inr (add_packages {} (file_lines content))
           | Some (ExistsRaised m) \<Rightarrow> Inl (OSError m)
           | Some (ReadRaised n (OSError m)) \<Rightarrow>
               Inr (add_packages {} (take n (file_lines content)))
           | Some (ReadRaised n (NotOSError m)) \<Rightarrow> Inl (NotOSError m)))"

text \<open>The loop over \<open>dependency_list\<close> (lines 50-54).\<close>

fun missing_loop :: "string set \<Rightarrow> string list \<Rightarrow> string list \<Rightarrow> string list" where
  "missing_loop existing_packages missing_packages [] = missing_packages"
| "missing_loop existing_packages missing_packages (dependency # ds) =
     (if lower (package_name dependency) \<notin> existing_packages
      then missing_loop existing_packages (missing_packages @ [dependency]) ds
      else missing_loop existing_packages missing_packages ds)"

definition find_missing_dependencies :: "dep_env \<Rightarrow> string list \<Rightarrow> string option \<Rightarrow> io_exc + string list" where
  "find_missing_dependencies env dependency_list manifest =
     (case read_requirements env manifest of
        Inl e \<Rightarrow> Inl e
      | Inr existing_packages \<Rightarrow> Inr (missing_loop existing_packages [] dependency_list))"

text \<open>
  What a successful \<open>append_to_requirements\<close> leaves in the file: the old content, a
  line feed when that content is not empty and does not end in one, and each dependency
  followed by a line feed.
\<close>

definition appended :: "string option \<Rightarrow> string list \<Rightarrow> string" where
  "appended manifest missing_dependencies =
     (let old = (case manifest of None \<Rightarrow> [] | Some content \<Rightarrow> content)
      in old @ (if old \<noteq> [] \<and> last old \<noteq> CHR 0x0A then ''\<newline>'' else [])
             @ concat (map (\<lambda>dependency. dependency @ ''\<newline>'') missing_dependencies))"

definition append_to_requirements ::
  "dep_env \<Rightarrow> string list \<Rightarrow> string option \<Rightarrow> (io_exc + bool) \<times> string option" where
  "append_to_requirements env missing_dependencies manifest =
     (if missing_dependencies = [] then (Inr True, manifest)
      else (case write_fault env of
              None \<Rightarrow> (Inr True, Some (appended manifest missing_dependencies))
            | Some (OSError m, left) \<Rightarrow> (Inr False, left)
            | Some (NotOSError m, left) \<Rightarrow> (Inl (NotOSError m), left)))"

text \<open>Both \<open>except\<close> clauses of \<open>install_packages\<close> return \<open>False\<close>.\<close>

definition install_packages :: "dep_env \<Rightarrow> string list \<Rightarrow> bool \<Rightarrow> bool" where
  "install_packages env packages use_pip_upgrade =
     (if packages = [] then True
      else (case install env of
              Installed out \<Rightarrow> True
            | CalledProcessError rc err out \<Rightarrow> False
            | InstallRaised m \<Rightarrow> False))"

definition manage_dependencies ::
  "dep_env \<Rightarrow> string list \<Rightarrow> string option \<Rightarrow> bool \<Rightarrow> bool \<Rightarrow> (io_exc + bool) \<times> string option" where
  "manage_dependencies env dependency_list manifest install_missing use_pip_upgrade =
     (case find_missing_dependencies env dependency_list manifest of
        Inl e \<Rightarrow> (Inl e, manifest)
      | Inr missing_deps \<Rightarrow>
          if missing_deps = [] then (Inr True, manifest)
          else (case append_to_requirements env missing_deps manifest of
                  (Inl e, manifest') \<Rightarrow> (Inl e, manifest')
                | (Inr appended_ok, manifest') \<Rightarrow>
                    if \<not> appended_ok then (Inr False, manifest')
                    else if install_missing
                      then (Inr (install_packages env missing_deps use_pip_upgrade), manifest')
                      else (Inr True, manifest')))"

definition quiet :: dep_env where
  "quiet = \<lparr>read_fault = None, write_fault = None, install = Installed []\<rparr>"

subsection \<open>The package name as the specification words it\<close>

text \<open>
  The specification's rule, for comparison with \<open>split_chain\<close>: the package name is
  everything before the first place where one of \<open>==\<close>, \<open>>=\<close>, \<open><=\<close>, \<open>>\<close>, \<open><\<close>,
  \<open>~=\<close> begins.
\<close>

definition starts_specifier :: "string \<Rightarrow> bool" where
  "starts_specifier s = (prefix ''=='' s \<or> prefix ''>='' s \<or> prefix ''<='' s \<or>
     prefix ''>'' s \<or> prefix ''<'' s \<or> prefix ''~='' s)"

fun before_first_specifier :: "string \<Rightarrow> string" where
  "before_first_specifier [] = []"
| "before_first_specifier (c # cs) =
     (if starts_specifier (c # cs) then [] else c # before_first_specifier cs)"

subsection \<open>Facts about the reconciler\<close>

lemma prefix1_split_head:
  "prefix [e] (split_head sep x) \<longleftrightarrow> prefix [e] x \<and> \<not> prefix sep x"
  by (cases x) auto

lemma prefix1_iff: "prefix [a] s \<longleftrightarrow> (\<exists>t. s = a # t)"
  by (cases s) auto

lemma split_chain_eq:
  "\<not> contains ''~=='' s \<Longrightarrow> split_chain s = before_first_specifier s"
proof (induction s)
  case Nil
  then show ?case by (simp add: split_chain_def)
next
  case (Cons c cs)
  then have IH: "split_chain cs = before_first_specifier cs"
    by simp
  consider (eq) "c = CHR ''=''" | (gt) "c = CHR ''>''" | (lt) "c = CHR ''<''"
    | (tilde) "c = CHR ''~''"
    | (other) "c \<noteq> CHR ''=''" "c \<noteq> CHR ''>''" "c \<noteq> CHR ''<''" "c \<noteq> CHR ''~''"
    by blast
  then show ?case
  proof cases
    case eq
    then show ?thesis using IH
      by (simp add: split_chain_def starts_specifier_def)
  next
    case gt
    then show ?thesis
      by (simp add: split_chain_def starts_specifier_def)
  next
    case lt
    then show ?thesis
      by (simp add: split_chain_def starts_specifier_def)
  next
    case tilde
    show ?thesis
    proof (cases "prefix ''='' cs")
      case True
      then obtain t where t: "cs = CHR ''='' # t"
        by (auto simp: prefix1_iff)
      with Cons.prems tilde have "\<not> prefix ''='' t"
        by simp
      with t tilde show ?thesis
        by (simp add: split_chain_def starts_specifier_def)
    next
      case False
      then have "\<not> prefix ''='' (split_head ''<'' (split_head ''>'' (split_head ''<=''
          (split_head ''>='' (split_head ''=='' cs)))))"
        by (simp add: prefix1_split_head)
      with False tilde IH show ?thesis
        by (simp add: split_chain_def starts_specifier_def)
    qed
  next
    case other
    then show ?thesis using IH
      by (simp add: split_chain_def starts_specifier_def)
  qed
qed

lemma no_space_prefix:
  "sep \<noteq> [] \<Longrightarrow> \<not> is_space (hd sep) \<Longrightarrow> is_space c \<Longrightarrow> \<not> prefix sep (c # x)"
  by (cases sep) auto

lemma split_head_lstrip:
  "sep \<noteq> [] \<Longrightarrow> \<not> is_space (hd sep) \<Longrightarrow>
   split_head sep (dropWhile is_space s) = dropWhile is_space (split_head sep s)"
  by (induction s) (auto simp: no_space_prefix)

lemma split_chain_lstrip: "split_chain (lstrip s) = lstrip (split_chain s)"
  by (simp add: split_chain_def lstrip_def split_head_lstrip is_space_def)

lemma split_head_spaces:
  "sep \<noteq> [] \<Longrightarrow> \<not> is_space (hd sep) \<Longrightarrow> \<forall>c\<in>set w. is_space c \<Longrightarrow> split_head sep w = w"
  by (induction w) (auto simp: no_space_prefix)

lemma prefix_append_spaces:
  assumes "\<forall>c\<in>set sep. \<not> is_space c" "\<forall>c\<in>set w. is_space c"
  shows "prefix sep (x @ w) \<longleftrightarrow> prefix sep x"
proof
  assume "prefix sep (x @ w)"
  then consider "prefix sep x" | us where "sep = x @ us" "prefix us w"
    by (auto simp: prefix_append)
  then show "prefix sep x"
  proof cases
    case 1
    then show ?thesis .
  next
    case 2
    have "us = []"
    proof (rule ccontr)
      assume "us \<noteq> []"
      then obtain u us' where "us = u # us'" by (cases us) auto
      with 2 have "u \<in> set sep" "u \<in> set w" by (auto simp: prefix_def)
      with assms show False by blast
    qed
    with 2 show ?thesis by simp
  qed
next
  assume "prefix sep x"
  then show "prefix sep (x @ w)" by (rule prefix_prefix)
qed

lemma split_head_append_spaces:
  assumes "sep \<noteq> []" "\<forall>c\<in>set sep. \<not> is_space c" "\<forall>c\<in>set w. is_space c"
  shows "\<exists>w'. (\<forall>c\<in>set w'. is_space c) \<and> split_head sep (t @ w) = split_head sep t @ w'"
proof (induction t)
  case Nil
  from assms have "\<not> is_space (hd sep)" by (cases sep) auto
  then have "split_head sep w = w"
    using assms split_head_spaces by blast
  with assms(3) show ?case by auto
next
  case (Cons c cs)
  have p: "prefix sep ((c # cs) @ w) \<longleftrightarrow> prefix sep (c # cs)"
    by (rule prefix_append_spaces [OF assms(2,3)])
  show ?case
  proof (cases "prefix sep (c # cs)")
    case True
    then have "split_head sep ((c # cs) @ w) = split_head sep (c # cs) @ []"
      using p by simp
    then show ?thesis by (metis empty_iff empty_set)
  next
    case False
    with p Cons show ?thesis by auto
  qed
qed

lemma split_chain_append_spaces:
  assumes "\<forall>c\<in>set w. is_space c"
  shows "\<exists>w'. (\<forall>c\<in>set w'. is_space c) \<and> split_chain (t @ w) = split_chain t @ w'"
proof -
  have s: "\<forall>c\<in>set ''==''. \<not> is_space c" "\<forall>c\<in>set ''>=''. \<not> is_space c"
    "\<forall>c\<in>set ''<=''. \<not> is_space c" "\<forall>c\<in>set ''>''. \<not> is_space c"
    "\<forall>c\<in>set ''<''. \<not> is_space c" "\<forall>c\<in>set ''~=''. \<not> is_space c"
    by (simp_all add: is_space_def)
  obtain w1 where 1: "\<forall>c\<in>set w1. is_space c"
      "split_head ''=='' (t @ w) = split_head ''=='' t @ w1"
    using split_head_append_spaces [OF _ s(1) assms] by blast
  obtain w2 where 2: "\<forall>c\<in>set w2. is_space c"
      "split_head ''>='' (split_head ''=='' t @ w1) = split_head ''>='' (split_head ''=='' t) @ w2"
    using split_head_append_spaces [OF _ s(2) 1(1)] by blast
  obtain w3 where 3: "\<forall>c\<in>set w3. is_space c"
      "split_head ''<='' (split_head ''>='' (split_head ''=='' t) @ w2) =
       split_head ''<='' (split_head ''>='' (split_head ''=='' t)) @ w3"
    using split_head_append_spaces [OF _ s(3) 2(1)] by blast
  obtain w4 where 4: "\<forall>c\<in>set w4. is_space c"
      "split_head ''>'' (split_head ''<='' (split_head ''>='' (split_head ''=='' t)) @ w3) =
       split_head ''>'' (split_head ''<='' (split_head ''>='' (split_head ''=='' t))) @ w4"
    using split_head_append_spaces [OF _ s(4) 3(1)] by blast
  obtain w5 where 5: "\<forall>c\<in>set w5. is_space c"
      "split_head ''<'' (split_head ''>'' (split_head ''<='' (split_head ''>='' (split_head ''=='' t))) @ w4) =
       split_head ''<'' (split_head ''>'' (split_head ''<='' (split_head ''>='' (split_head ''=='' t)))) @ w5"
    using split_head_append_spaces [OF _ s(5) 4(1)] by blast
  obtain w6 where 6: "\<forall>c\<in>set w6. is_space c"
      "split_head ''~='' (split_head ''<'' (split_head ''>'' (split_head ''<='' (split_head ''>='' (split_head ''=='' t)))) @ w5) =
       split_head ''~='' (split_head ''<'' (split_head ''>'' (split_head ''<='' (split_head ''>='' (split_head ''=='' t))))) @ w6"
    using split_head_append_spaces [OF _ s(6) 5(1)] by blast
  have "split_chain (t @ w) = split_chain t @ w6"
    by (simp add: split_chain_def 1(2) 2(2) 3(2) 4(2) 5(2) 6(2))
  with 6(1) show ?thesis by blast
qed

lemma rstrip_append_spaces: "\<forall>c\<in>set w. is_space c \<Longrightarrow> rstrip (x @ w) = rstrip x"
  using dropWhile_append2 [of "rev w" is_space "rev x"] by (simp add: rstrip_def)

lemma strip_append_spaces:
  assumes "\<forall>c\<in>set w. is_space c"
  shows "strip (x @ w) = strip x"
proof (cases "\<forall>c\<in>set x. is_space c")
  case True
  with assms have "lstrip (x @ w) = []" "lstrip x = []"
    by (auto simp: lstrip_def)
  then show ?thesis by (simp only: strip_def)
next
  case False
  then have "lstrip (x @ w) = lstrip x @ w"
    by (auto simp: dropWhile_append1 lstrip_def)
  then show ?thesis
    using assms by (simp only: strip_def rstrip_append_spaces)
qed

lemma rstrip_decompose: "\<exists>w. (\<forall>c\<in>set w. is_space c) \<and> s = rstrip s @ w"
proof -
  have "rev s = takeWhile is_space (rev s) @ dropWhile is_space (rev s)" by simp
  then have "s = rev (dropWhile is_space (rev s)) @ rev (takeWhile is_space (rev s))"
    by (metis rev_append rev_rev_ident)
  moreover have "\<forall>c\<in>set (rev (takeWhile is_space (rev s))). is_space c"
    by (auto dest: set_takeWhileD)
  ultimately show ?thesis unfolding rstrip_def by blast
qed

lemma lstrip_idem: "strip (lstrip s) = strip s"
  by (simp add: strip_def lstrip_def)

lemma package_name_strip: "package_name (strip d) = package_name d"
proof -
  obtain w where w: "\<forall>c\<in>set w. is_space c" "lstrip d = rstrip (lstrip d) @ w"
    using rstrip_decompose by blast
  obtain w' where w': "\<forall>c\<in>set w'. is_space c"
      "split_chain (rstrip (lstrip d) @ w) = split_chain (rstrip (lstrip d)) @ w'"
    using split_chain_append_spaces [OF w(1)] by blast
  have "strip (split_chain (strip d)) = strip (split_chain (rstrip (lstrip d)))"
    by (simp only: strip_def [of d])
  also have "\<dots> = strip (split_chain (rstrip (lstrip d)) @ w')"
    by (simp only: strip_append_spaces [OF w'(1)])
  also have "\<dots> = strip (split_chain (lstrip d))"
    using w(2) w'(2) by simp
  also have "\<dots> = strip (split_chain d)"
    by (simp add: split_chain_lstrip lstrip_idem)
  finally show ?thesis by (simp add: package_name_def)
qed

text \<open>The stripped lines of a list of raw lines that are not blank.\<close>

definition entries :: "string list \<Rightarrow> string list" where
  "entries ls = filter (\<lambda>l. l \<noteq> []) (map strip ls)"

lemma entries_simps [simp]:
  "entries [] = []"
  "entries (l # ls) = (if strip l = [] then entries ls else strip l # entries ls)"
  "entries (xs @ ys) = entries xs @ entries ys"
  by (simp_all add: entries_def)

lemma strip_newline [simp]: "strip (s @ ''\<newline>'') = strip s"
  using strip_append_spaces [of "''\<newline>''" s] by (simp add: is_space_def)


lemma file_lines_from_after_newline:
  "file_lines_from cur (old @ CHR 0x0A # x) =
     file_lines_from cur (old @ ''\<newline>'') @ file_lines_from [] x"
proof (induction cur old rule: file_lines_from.induct)
  case (1 cur)
  show ?case by simp
next
  case (2 cur c cs)
  show ?case
  proof (cases "c = CHR 0x0A")
    case True
    with 2(1) show ?thesis by simp
  next
    case nl: False
    show ?thesis
    proof (cases "c = CHR 0x0D")
      case False
      with nl 2(5) show ?thesis by simp
    next
      case cr: True
      show ?thesis
      proof (cases cs)
        case Nil
        with cr show ?thesis by simp
      next
        case (Cons d ds)
        show ?thesis
        proof (cases "d = CHR 0x0A")
          case True
          with cr Cons 2(3) [OF nl cr Cons True] show ?thesis by simp
        next
          case False
          with cr Cons 2(4) [OF nl cr Cons False] show ?thesis by simp
        qed
      qed
    qed
  qed
qed

lemma entries_file_lines_newline:
  "entries (file_lines_from cur (old @ ''\<newline>'')) = entries (file_lines_from cur old)"
proof (induction cur old rule: file_lines_from.induct)
  case (1 cur)
  show ?case by simp
next
  case (2 cur c cs)
  show ?case
  proof (cases "c = CHR 0x0A")
    case True
    with 2(1) show ?thesis by simp
  next
    case nl: False
    show ?thesis
    proof (cases "c = CHR 0x0D")
      case False
      with nl 2(5) show ?thesis by simp
    next
      case cr: True
      show ?thesis
      proof (cases cs)
        case Nil
        with cr show ?thesis by simp
      next
        case (Cons d ds)
        show ?thesis
        proof (cases "d = CHR 0x0A")
          case True
          with cr Cons 2(3) [OF nl cr Cons True] show ?thesis by simp
        next
          case False
          with cr Cons 2(4) [OF nl cr Cons False] show ?thesis by simp
        qed
      qed
    qed
  qed
qed

lemma file_lines_from_line:
  "CHR 0x0A \<notin> set d \<Longrightarrow> CHR 0x0D \<notin> set d \<Longrightarrow>
   file_lines_from cur (d @ CHR 0x0A # rest) = (cur @ d @ ''\<newline>'') # file_lines_from [] rest"
  by (induction d arbitrary: cur) auto

lemma file_lines_written:
  "\<forall>d\<in>set ms. CHR 0x0A \<notin> set d \<and> CHR 0x0D \<notin> set d \<Longrightarrow>
   file_lines_from [] (concat (map (\<lambda>d. d @ ''\<newline>'') ms)) = map (\<lambda>d. d @ ''\<newline>'') ms"
  by (induction ms) (auto simp: file_lines_from_line)

lemma entries_written: "entries (map (\<lambda>d. d @ ''\<newline>'') ms) = entries ms"
  by (induction ms) auto

lemma add_packages_set:
  "add_packages S ls =
     S \<union> (\<lambda>l. lower (package_name l)) ` {l \<in> set (entries ls). \<not> prefix ''#'' l}"
  by (induction ls arbitrary: S) (auto simp: Let_def)

lemma missing_loop_filter:
  "missing_loop S acc ds = acc @ filter (\<lambda>d. lower (package_name d) \<notin> S) ds"
  by (induction ds arbitrary: acc) auto

lemma entries_appended:
  assumes "\<forall>d\<in>set ms. CHR 0x0A \<notin> set d \<and> CHR 0x0D \<notin> set d"
  shows "entries (file_lines (appended manifest ms)) =
    entries (file_lines (case manifest of None \<Rightarrow> [] | Some content \<Rightarrow> content)) @ entries ms"
proof -
  define old where "old = (case manifest of None \<Rightarrow> [] | Some content \<Rightarrow> content)"
  define new where "new = concat (map (\<lambda>d. d @ ''\<newline>'') ms)"
  have w: "entries (file_lines_from [] new) = entries ms"
    using assms by (simp add: new_def file_lines_written entries_written)
  have goal: "entries (file_lines_from [] (appended manifest ms)) =
      entries (file_lines_from [] old) @ entries ms"
  proof (cases "old \<noteq> [] \<and> last old \<noteq> CHR 0x0A")
    case True
    then have "appended manifest ms = old @ CHR 0x0A # new"
      by (simp add: appended_def Let_def old_def new_def)
    then show ?thesis
      using file_lines_from_after_newline [of "[]" old new]
      by (simp add: entries_file_lines_newline w)
  next
    case False
    then have a: "appended manifest ms = old @ new"
      by (auto simp: appended_def Let_def old_def new_def)
    show ?thesis
    proof (cases "old = []")
      case True
      with a w show ?thesis by simp
    next
      case False
      with \<open>\<not> (old \<noteq> [] \<and> last old \<noteq> CHR 0x0A)\<close>
      obtain b where o: "old = b @ ''\<newline>''"
        by (metis append_butlast_last_id)
      have "appended manifest ms = b @ CHR 0x0A # new"
        by (simp add: a o)
      then have "entries (file_lines_from [] (appended manifest ms)) =
          entries (file_lines_from [] (b @ ''\<newline>'')) @ entries ms"
        using file_lines_from_after_newline [of "[]" b new] by (simp add: w)
      then show ?thesis by (simp only: o)
    qed
  qed
  then show ?thesis by (simp add: file_lines_def old_def)
qed

lemma read_requirements_entries:
  "read_fault env = None \<Longrightarrow>
   read_requirements env manifest =
     Inr ((\<lambda>l. lower (package_name l)) `
       {l \<in> set (entries (file_lines (case manifest of None \<Rightarrow> [] | Some content \<Rightarrow> content))).
          \<not> prefix ''#'' l})"
  by (cases manifest) (simp_all add: read_requirements_def add_packages_set file_lines_def)

lemma find_missing_filter:
  "read_requirements env manifest = Inr existing \<Longrightarrow>
   find_missing_dependencies env L manifest =
     Inr (filter (\<lambda>d. lower (package_name d) \<notin> existing) L)"
  by (simp add: find_missing_dependencies_def missing_loop_filter)

lemmas dep_defs = find_missing_dependencies_def read_requirements_def append_to_requirements_def
  appended_def manage_dependencies_def install_packages_def quiet_def
  file_lines_def package_name_def split_chain_def lower_def lower_char_def Let_def

subsection \<open>Diff, commit, diff again\<close>

text \<open>
  Claim C4, as the code has it. Let every requested entry, once stripped, be non-empty
  and not begin with \<open>#\<close>, and hold no line feed and no carriage return. When reading
  and writing the manifest raise nothing, \<open>find_missing_dependencies\<close> returns
  \<open>missing\<close> and \<open>append_to_requirements\<close> of \<open>missing\<close> succeeds, then
  \<open>find_missing_dependencies\<close> of the same list against the manifest so written returns
  the empty list.
\<close>

theorem diff_then_commit_idempotent:
  assumes "read_fault env = None" and "write_fault env = None"
    and ok: "\<forall>d\<in>set L. strip d \<noteq> [] \<and> \<not> prefix ''#'' (strip d) \<and>
           CHR 0x0A \<notin> set d \<and> CHR 0x0D \<notin> set d"
    and diff: "find_missing_dependencies env L manifest = Inr missing"
    and commit: "append_to_requirements env missing manifest = (Inr True, manifest')"
  shows "find_missing_dependencies env L manifest' = Inr []"
proof -
  define key where "key = (\<lambda>l. lower (package_name l))"
  define names where "names = (\<lambda>E. key ` {l \<in> set E. \<not> prefix ''#'' l})"
  define old where "old = entries (file_lines (case manifest of None \<Rightarrow> [] | Some content \<Rightarrow> content))"
  have r: "read_requirements env manifest = Inr (names old)"
    using read_requirements_entries [OF assms(1)] by (simp add: names_def key_def old_def)
  then have m: "missing = filter (\<lambda>d. key d \<notin> names old) L"
    using diff find_missing_filter [OF r] by (simp add: key_def)
  show ?thesis
  proof (cases "missing = []")
    case True
    with commit have "manifest' = manifest"
      by (simp add: append_to_requirements_def)
    with diff True show ?thesis by simp
  next
    case False
    with commit assms(2) have m': "manifest' = Some (appended manifest missing)"
      by (simp add: append_to_requirements_def)
    have nl: "\<forall>d\<in>set missing. CHR 0x0A \<notin> set d \<and> CHR 0x0D \<notin> set d"
      using ok m by auto
    have r': "read_requirements env manifest' = Inr (names (old @ entries missing))"
      using read_requirements_entries [OF assms(1), of manifest'] entries_appended [OF nl, of manifest]
      by (simp add: m' names_def key_def old_def)
    have "key d \<in> names (old @ entries missing)" if d: "d \<in> set L" for d
    proof (cases "key d \<in> names old")
      case True
      then show ?thesis by (auto simp: names_def)
    next
      case False
      with d m have "d \<in> set missing" by simp
      moreover from ok d have "strip d \<noteq> []" "\<not> prefix ''#'' (strip d)" by auto
      ultimately have "strip d \<in> {l \<in> set (old @ entries missing). \<not> prefix ''#'' l}"
        by (auto simp: entries_def)
      then have "key (strip d) \<in> names (old @ entries missing)"
        unfolding names_def by (rule imageI)
      then show ?thesis by (simp add: key_def package_name_strip)
    qed
    then have "filter (\<lambda>d. key d \<notin> names (old @ entries missing)) L = []"
      by (simp add: filter_empty_conv)
    then show ?thesis
      using find_missing_filter [OF r', of L] by (simp add: key_def)
  qed
qed

theorem diff_then_commit_idempotent_witness:
  "find_missing_dependencies quiet [''numpy==1.24.3''] None = Inr [''numpy==1.24.3''] \<and>
   append_to_requirements quiet [''numpy==1.24.3''] None = (Inr True, Some ''numpy==1.24.3\<newline>'') \<and>
   find_missing_dependencies quiet [''numpy==1.24.3''] (Some ''numpy==1.24.3\<newline>'') = Inr []"
proof -
  have q: "read_fault quiet = None" "write_fault quiet = None"
    by (simp_all add: quiet_def)
  have ok: "\<forall>d\<in>set [''numpy==1.24.3'']. strip d \<noteq> [] \<and> \<not> prefix ''#'' (strip d) \<and>
           CHR 0x0A \<notin> set d \<and> CHR 0x0D \<notin> set d"
    by (simp add: strip_defs)
  have d: "find_missing_dependencies quiet [''numpy==1.24.3''] None = Inr [''numpy==1.24.3'']"
    by (simp add: dep_defs)
  have c: "append_to_requirements quiet [''numpy==1.24.3''] None =
      (Inr True, Some ''numpy==1.24.3\<newline>'')"
    by (simp add: dep_defs)
  show ?thesis
    using d c diff_then_commit_idempotent [OF q ok d c] by simp
qed

text \<open>
  Claim C4 as stated fails for an entry that reads as a comment: it is reported as
  missing, appended, skipped when the manifest is read back, and reported again.
\<close>

theorem comment_entry_counterexample:
  "find_missing_dependencies quiet [''# none''] None = Inr [''# none''] \<and>
   append_to_requirements quiet [''# none''] None = (Inr True, Some ''# none\<newline>'') \<and>
   find_missing_dependencies quiet [''# none''] (Some ''# none\<newline>'') = Inr [''# none'']"
  by (simp add: dep_defs strip_defs)

subsection \<open>Package names and the missing entries\<close>

text \<open>
  Claim C6, as the code has it. For a dependency string in which \<open>~==\<close> does not occur,
  the package name is the stripped text before the first specifier; names are compared
  in lower case. Given the set read from the manifest, \<open>find_missing_dependencies\<close>
  returns exactly the requested entries, unchanged and in order, whose lower-cased
  package name is not in the set. A manifest that does not exist reads as the empty set,
  and then every requested entry is missing.
\<close>

theorem package_name_and_missing:
  "(\<not> contains ''~=='' d \<longrightarrow> package_name d = strip (before_first_specifier d)) \<and>
   (read_requirements env manifest = Inr existing \<longrightarrow>
      find_missing_dependencies env L manifest =
        Inr (filter (\<lambda>x. lower (package_name x) \<notin> existing) L)) \<and>
   read_requirements env None = Inr {} \<and>
   find_missing_dependencies env L None = Inr L"
proof -
  have e: "read_requirements env None = Inr {}"
    by (simp add: read_requirements_def)
  show ?thesis
    using split_chain_eq [of d] find_missing_filter [of env manifest existing L]
      find_missing_filter [OF e, of L] e
    by (simp add: package_name_def)
qed

theorem package_name_and_missing_witness:
  "package_name ''Requests >= 2.0'' = ''Requests'' \<and>
   strip (before_first_specifier ''Requests >= 2.0'') = ''Requests'' \<and>
   read_requirements quiet (Some ''requests\<newline># pinned\<newline>flask==2.3.2'') = Inr {''requests'', ''flask''} \<and>
   find_missing_dependencies quiet [''Requests >= 2.0'', ''numpy==1.24.3'']
     (Some ''requests\<newline># pinned\<newline>flask==2.3.2'') = Inr [''numpy==1.24.3'']"
proof -
  have n: "\<not> contains ''~=='' ''Requests >= 2.0''"
    by simp
  have b: "strip (before_first_specifier ''Requests >= 2.0'') = ''Requests''"
    by (simp add: starts_specifier_def strip_defs)
  have r: "read_requirements quiet (Some ''requests\<newline># pinned\<newline>flask==2.3.2'') =
      Inr {''requests'', ''flask''}"
    by code_simp
  have k: "filter (\<lambda>x. lower (package_name x) \<notin> {''requests'', ''flask''})
      [''Requests >= 2.0'', ''numpy==1.24.3''] = [''numpy==1.24.3'']"
    by code_simp
  note t = package_name_and_missing [of "''Requests >= 2.0''" quiet
      "Some ''requests\<newline># pinned\<newline>flask==2.3.2''" "{''requests'', ''flask''}"
      "[''Requests >= 2.0'', ''numpy==1.24.3'']"]
  show ?thesis
    using t n b r k by simp
qed

text \<open>
  Claim C6 as stated fails on \<open>a~==1\<close>: the first specifier, \<open>~=\<close>, begins after
  \<open>a\<close>, but the split at \<open>==\<close> comes first and leaves \<open>a~\<close>, in which \<open>~=\<close> no longer
  occurs.
\<close>

theorem tilde_equals_counterexample:
  "package_name ''a~==1'' = ''a~'' \<and> strip (before_first_specifier ''a~==1'') = ''a''"
  by (simp add: dep_defs strip_defs starts_specifier_def)

subsection \<open>Results that are not a success\<close>





text \<open>
  When the reconciler returns: \<open>exists()\<close> does not raise, and reading and writing the
  manifest raise nothing but \<open>OSError\<close>.
\<close>

lemma read_requirements_returns:
  assumes "\<forall>m. read_fault env \<noteq> Some (ExistsRaised m)"
    and "\<forall>n m. read_fault env \<noteq> Some (ReadRaised n (NotOSError m))"
  shows "\<exists>S. read_requirements env mf = Inr S"
  using assms
  by (auto simp: read_requirements_def split: option.splits manifest_fault.splits io_exc.splits)

lemma append_to_requirements_returns:
  "\<forall>m left. write_fault env \<noteq> Some (NotOSError m, left) \<Longrightarrow>
   \<exists>b. fst (append_to_requirements env ms mf) = Inr b"
  by (auto simp: append_to_requirements_def split: option.splits io_exc.splits)

lemma manage_dependencies_returns:
  assumes "\<forall>m. read_fault env \<noteq> Some (ExistsRaised m)"
    and "\<forall>k m. read_fault env \<noteq> Some (ReadRaised k (NotOSError m))"
    and "\<forall>m left. write_fault env \<noteq> Some (NotOSError m, left)"
  shows "\<exists>b m'. manage_dependencies env L mf im up = (Inr b, m')"
proof -
  obtain S where "read_requirements env mf = Inr S"
    using assms(1,2) read_requirements_returns by blast
  then obtain ms where ms: "find_missing_dependencies env L mf = Inr ms"
    by (simp add: find_missing_dependencies_def)
  obtain b where "fst (append_to_requirements env ms mf) = Inr b"
    using assms(3) append_to_requirements_returns by blast
  then show ?thesis
    using ms
    by (cases "append_to_requirements env ms mf")
       (auto simp: manage_dependencies_def split: sum.splits)
qed

subsection \<open>What is returned and what is raised\<close>

text \<open>
  Three manifests in trouble and two runs of pip that fail: a manifest that is not
  UTF-8 (as one written in UTF-16), so that reading it raises \<open>UnicodeDecodeError\<close>; a
  manifest in a directory that may not be searched, so that \<open>exists()\<close> raises
  \<open>PermissionError\<close>; a manifest that may not be written; pip ending with a return code
  that is not 0; and \<open>subprocess.run\<close> raising.
\<close>

definition undecodable :: dep_env where
  "undecodable =
     quiet\<lparr>read_fault := Some (ReadRaised 0 (NotOSError ''utf-8 codec cannot decode byte 0xff''))\<rparr>"

definition unsearchable :: dep_env where
  "unsearchable = quiet\<lparr>read_fault := Some (ExistsRaised ''Permission denied'')\<rparr>"

definition unwritable :: dep_env where
  "unwritable = quiet\<lparr>write_fault := Some (OSError ''Permission denied'', Some ''flask'')\<rparr>"

definition pip_fails :: dep_env where
  "pip_fails = quiet\<lparr>install := CalledProcessError 1 ''No matching distribution'' []\<rparr>"

definition pip_raises :: dep_env where
  "pip_raises = quiet\<lparr>install := InstallRaised ''No such file or directory''\<rparr>"

text \<open>
  Claim C8 holds of the executor (\<open>failure_is_classified\<close>: every exception of its
  \<open>try\<close> block becomes a result with an error type and an error text) and of
  \<open>append_to_requirements\<close> and \<open>install_packages\<close> where they catch: the manifest that
  may not be written and both failing runs of pip give \<open>False\<close>. It fails in
  \<open>read_requirements\<close>, and so in \<open>find_missing_dependencies\<close> and
  \<open>manage_dependencies\<close>, which call it unguarded: called with \<open>[flask]\<close> on a manifest
  that is not UTF-8, each of the three raises \<open>UnicodeDecodeError\<close>, which
  \<open>except IOError\<close> does not catch; and on a manifest in a directory that may not be
  searched each raises the \<open>PermissionError\<close> of \<open>exists()\<close>, which no handler encloses.
\<close>

theorem manifest_exceptions_are_raised:
  "read_requirements undecodable (Some ''numpy'') =
     Inl (NotOSError ''utf-8 codec cannot decode byte 0xff'') \<and>
   find_missing_dependencies undecodable [''flask''] (Some ''numpy'') =
     Inl (NotOSError ''utf-8 codec cannot decode byte 0xff'') \<and>
   fst (manage_dependencies undecodable [''flask''] (Some ''numpy'') True False) =
     Inl (NotOSError ''utf-8 codec cannot decode byte 0xff'') \<and>
   read_requirements unsearchable (Some ''numpy'') = Inl (OSError ''Permission denied'') \<and>
   find_missing_dependencies unsearchable [''flask''] (Some ''numpy'') =
     Inl (OSError ''Permission denied'') \<and>
   fst (manage_dependencies unsearchable [''flask''] (Some ''numpy'') True False) =
     Inl (OSError ''Permission denied'') \<and>
   fst (append_to_requirements unwritable [''numpy''] (Some ''flask'')) = Inr False \<and>
   fst (manage_dependencies unwritable [''numpy''] (Some ''flask'') True False) = Inr False \<and>
   install_packages pip_fails [''flask''] False = False \<and>
   install_packages pip_raises [''flask''] False = False \<and>
   fst (manage_dependencies pip_fails [''flask''] None True False) = Inr False \<and>
   fst (manage_dependencies pip_raises [''flask''] None True False) = Inr False"
  by (simp add: dep_defs strip_defs undecodable_def unsearchable_def unwritable_def
      pip_fails_def pip_raises_def)

section \<open>The retry orchestrator (classify.py)\<close>

text \<open>
  The exceptions that can leave the orchestrator: the \<open>ValueError\<close> of
  \<open>generate_prompt\<close>, an exception of loading or formatting a prompt template, the
  \<open>TypeError\<close> of adding \<open>None\<close> to a string, and an exception that
  \<open>manage_dependencies\<close> lets through.
\<close>

datatype py_error =
    ValueError string
  | TemplateError string
  | TypeError string
  | ManifestError io_exc

datatype prompt_type = CodePrompt | RetryPrompt

text \<open>
  What a request changes: the manifest, the files that exist, and the number of calls made
  to the generator so far.
\<close>

record world =
  manifest :: "string option"
  files :: "string set"
  llm_calls :: nat

text \<open>
  The collaborators. \<open>render path args\<close> is \<open>load_prompt_template(path)\<close> followed by
  \<open>template.format(**args)\<close>: the prompt, or the text of the exception either raises.
  \<open>call_llm_code n prompt\<close> is the text the generator returns to call number \<open>n\<close>;
  \<open>dep_envs n\<close> and \<open>exec_envs n\<close> are what the operating system does during the
  dependency step and the execution that follow that call. \<open>list_text\<close> is \<open>str()\<close> of
  a list of strings.
\<close>

record orch_env =
  render :: "string \<Rightarrow> (string \<times> string) list \<Rightarrow> string + string"
  call_llm_code :: "nat \<Rightarrow> string \<Rightarrow> string"
  dep_envs :: "nat \<Rightarrow> dep_env"
  exec_envs :: "nat \<Rightarrow> exec_env"
  list_text :: "string list \<Rightarrow> string"

definition render_template ::
  "orch_env \<Rightarrow> string \<Rightarrow> (string \<times> string) list \<Rightarrow> py_error + string" where
  "render_template env path args =
     (case render env path args of Inl m \<Rightarrow> Inl (TemplateError m) | Inr prompt \<Rightarrow> Inr prompt)"

text \<open>
  \<open>generate_prompt\<close> for the prompt types \<open>code\<close> and \<open>retry\<close>, with the default
  template paths (\<open>prompt_util.py\<close>, lines 50-70).
\<close>

definition generate_prompt ::
  "orch_env \<Rightarrow> string \<Rightarrow> prompt_type \<Rightarrow> string \<Rightarrow> string \<Rightarrow> py_error + string" where
  "generate_prompt env question ptype code_arg error_arg =
     (if question = [] \<or> strip question = [] then Inl (ValueError ''question cannot be empty'')
      else (case ptype of
              CodePrompt \<Rightarrow>
                render_template env ''prompts/code.txt'' [(''question'', strip question)]
            | RetryPrompt \<Rightarrow>
                if code_arg = [] \<or> strip code_arg = []
                then Inl (ValueError ''code parameter is required for retry prompt'')
                else if error_arg = [] \<or> strip error_arg = []
                then Inl (ValueError ''error parameter is required for retry prompt'')
                else render_template env ''prompts/retry.txt''
                       [(''question'', strip question), (''code'', strip code_arg),
                        (''error'', strip error_arg)]))"

text \<open>
  One pass through the body of \<open>retry\<close> after the test of the trial counter (lines
  21-39): it returns, or it reaches the recursive call with the regenerated code and the
  error of its execution.
\<close>

datatype attempt_result =
    Returned "py_error + string" world
  | Failed string string world

definition retry_attempt ::
  "orch_env \<Rightarrow> string \<Rightarrow> string \<Rightarrow> string \<Rightarrow> world \<Rightarrow> attempt_result" where
  "retry_attempt env question code_arg error_msg w =
     (case generate_prompt env question RetryPrompt code_arg error_msg of
        Inl e \<Rightarrow> Returned (Inl e) w
      | Inr prompt \<Rightarrow>
          (let response = call_llm_code env (llm_calls w) prompt;
               w1 = w\<lparr>llm_calls := Suc (llm_calls w)\<rparr>;
               result = extract_code_and_dependencies response
           in if \<not> p_success result
              then Returned (Inr (''Error generating retry prompt: '' @ p_error result)) w1
              else (case manage_dependencies (dep_envs env (llm_calls w)) (dependencies result)
                           (manifest w1) True False of
                      (Inl e, manifest') \<Rightarrow> Returned (Inl (ManifestError e)) (w1\<lparr>manifest := manifest'\<rparr>)
                    | (Inr managed, manifest') \<Rightarrow>
                        (case execute_python_code (exec_envs env (llm_calls w)) (Str (code result))
                                (Seconds 50) True (files w1) of
                           (r, files') \<Rightarrow>
                             if success r
                             then Returned (Inr (output r))
                                    (w1\<lparr>manifest := manifest', files := files'\<rparr>)
                             else Failed (code result) (error r)
                                    (w1\<lparr>manifest := manifest', files := files'\<rparr>)))))"

text \<open>
  \<open>retry\<close>. The recursive call passes no \<open>max_trials\<close>, so from the second level on
  the maximum is the default 6.
\<close>

function retry ::
  "orch_env \<Rightarrow> string \<Rightarrow> string \<Rightarrow> string \<Rightarrow> int \<Rightarrow> int \<Rightarrow> world \<Rightarrow> (py_error + string) \<times> world" where
  "retry env question code_arg error_msg trial max_trials w =
     (if trial \<ge> max_trials
      then (Inr (''Max retries reached. Last error: '' @ error_msg), w)
      else (case retry_attempt env question code_arg error_msg w of
              Returned v w' \<Rightarrow> (v, w')
            | Failed code' error' w' \<Rightarrow> retry env question code' error' (trial + 1) 6 w'))"
  by pat_completeness auto
termination
  by (relation "measure (\<lambda>(env, question, code_arg, error_msg, trial, max_trials, w).
        nat (6 - trial) + (if max_trials = 6 then 0 else 1))") auto

declare retry.simps [simp del]


text \<open>
  For stating which attempt an answer comes from: the code and the error that the next
  level of \<open>retry\<close> receives, and the world, once \<open>n\<close> attempts in a row have reached
  the recursive call; \<open>None\<close> when one of them returned instead.
\<close>

fun after_failures ::
  "orch_env \<Rightarrow> string \<Rightarrow> nat \<Rightarrow> string \<times> string \<times> world \<Rightarrow> (string \<times> string \<times> world) option" where
  "after_failures env question 0 s = Some s"
| "after_failures env question (Suc n) (code_arg, error_msg, w) =
     (case retry_attempt env question code_arg error_msg w of
        Returned v w' \<Rightarrow> None
      | Failed code' error' w' \<Rightarrow> after_failures env question n (code', error', w'))"

subsection \<open>Sample requests\<close>

definition fresh :: world where
  "fresh = \<lparr>manifest = None, files = {}, llm_calls = 0\<rparr>"

definition env_always_ok :: orch_env where
  "env_always_ok = \<lparr>render = (\<lambda>path args. Inr ''prompt''),
     call_llm_code = (\<lambda>n prompt. ''```code\<newline>print(1)\<newline>```''),
     dep_envs = (\<lambda>n. quiet), exec_envs = (\<lambda>n. env_clean), list_text = (\<lambda>ds. ''[]'')\<rparr>"


definition env_never_ok :: orch_env where
  "env_never_ok = env_always_ok\<lparr>exec_envs := (\<lambda>n. env_failing),
     call_llm_code := (\<lambda>n prompt. ''```code\<newline>1/0\<newline>```'')\<rparr>"

definition env_blank_code :: orch_env where
  "env_blank_code = env_never_ok\<lparr>call_llm_code := (\<lambda>n prompt. ''```code```'')\<rparr>"

subsection \<open>Facts about one attempt\<close>

lemma strip_nonspace_head: "\<not> is_space c \<Longrightarrow> strip (c # t) \<noteq> []"
proof -
  assume c: "\<not> is_space c"
  then have "lstrip (c # t) = c # t" by (simp add: lstrip_def)
  moreover have "rstrip (c # t) \<noteq> []"
  proof -
    have "dropWhile is_space (rev t @ [c]) \<noteq> []"
      using c by (simp add: dropWhile_append)
    then show ?thesis by (simp add: rstrip_def)
  qed
  ultimately show ?thesis by (simp add: strip_def)
qed

text \<open>A text whose first character is not white space.\<close>

definition starts_visibly :: "string \<Rightarrow> bool" where
  "starts_visibly s = (case s of [] \<Rightarrow> False | c # t \<Rightarrow> \<not> is_space c)"

lemma starts_visibly_strip: "starts_visibly s \<Longrightarrow> strip s \<noteq> []"
  by (cases s) (auto simp: starts_visibly_def strip_nonspace_head)

lemma cleanup_starts_visibly:
  "starts_visibly (error r) \<Longrightarrow> starts_visibly (error (fst (cleanup env t fs r)))"
  by (cases "error r") (auto simp: cleanup_def starts_visibly_def split: option.splits)

lemma handle_exception_starts_visibly:
  "starts_visibly (error (handle_exception timeout ms e r))"
  by (cases e) (simp_all add: starts_visibly_def is_space_def)

lemma process_results_starts_visibly:
  "rc \<noteq> 0 \<Longrightarrow> starts_visibly (error (process_results cs ms rc out err initial_result))"
  by (simp add: process_results_nonzero starts_visibly_def is_space_def)

lemma failure_error_not_blank:
  assumes "\<not> success (fst (execute_python_code env src timeout cs fs))"
  shows "strip (error (fst (execute_python_code env src timeout cs fs))) \<noteq> []"
proof -
  have "starts_visibly (error (fst (execute_python_code env src timeout cs fs)))"
  proof (cases src)
    case NotStr
    then show ?thesis
      by (simp add: execute_python_code_def initial_result_def starts_visibly_def is_space_def)
  next
    case (Str body)
    show ?thesis
    proof (cases "strip body = []")
      case True
      with Str show ?thesis
        by (simp add: execute_python_code_def initial_result_def starts_visibly_def is_space_def)
    next
      case False
      show ?thesis
      proof (cases "tmp env")
        case (TmpCreateFailed e)
        with Str False show ?thesis
          by (simp add: execute_python_code_def cleanup_starts_visibly handle_exception_starts_visibly)
      next
        case (TmpWriteFailed stem e)
        with Str False show ?thesis
          by (simp add: execute_python_code_def cleanup_starts_visibly handle_exception_starts_visibly)
      next
        case (TmpCreated stem)
        show ?thesis
        proof (cases "run_outcome env timeout")
          case (Raised e)
          with Str False TmpCreated show ?thesis
            by (simp add: execute_python_code_def cleanup_starts_visibly handle_exception_starts_visibly)
        next
          case (Completed rc out err)
          with Str False TmpCreated assms have "rc \<noteq> 0"
            by (auto simp: execute_python_code_def cleanup_keeps process_results_zero)
          with Str False TmpCreated Completed show ?thesis
            by (simp add: execute_python_code_def cleanup_starts_visibly process_results_starts_visibly)
        qed
      qed
    qed
  qed
  then show ?thesis by (rule starts_visibly_strip)
qed

text \<open>What one attempt does once its prompt, its reply and its dependency step are there.\<close>

lemma retry_attempt_executes:
  assumes "generate_prompt env question RetryPrompt c e = Inr prompt"
    and "extract_code_and_dependencies (call_llm_code env (llm_calls w) prompt) = res"
    and "p_success res"
    and "manage_dependencies (dep_envs env (llm_calls w)) (dependencies res) (manifest w)
           True False = (Inr managed, m')"
    and "execute_python_code (exec_envs env (llm_calls w)) (Str (code res)) (Seconds 50) True
           (files w) = (r, fs')"
  shows "retry_attempt env question c e w =
    (if success r
     then Returned (Inr (output r)) (w\<lparr>llm_calls := Suc (llm_calls w), manifest := m', files := fs'\<rparr>)
     else Failed (code res) (error r)
            (w\<lparr>llm_calls := Suc (llm_calls w), manifest := m', files := fs'\<rparr>))"
  using assms by (simp add: retry_attempt_def Let_def)

lemma retry_attempt_fails:
  assumes q: "strip question \<noteq> []"
    and r: "\<forall>path args. \<exists>prompt. render env path args = Inr prompt"
    and p: "\<forall>n prompt. p_success (extract_code_and_dependencies (call_llm_code env n prompt)) \<and>
              strip (code (extract_code_and_dependencies (call_llm_code env n prompt))) \<noteq> []"
    and d: "\<forall>n m. read_fault (dep_envs env n) \<noteq> Some (ExistsRaised m)"
           "\<forall>n k m. read_fault (dep_envs env n) \<noteq> Some (ReadRaised k (NotOSError m))"
           "\<forall>n m left. write_fault (dep_envs env n) \<noteq> Some (NotOSError m, left)"
    and x: "\<forall>n src fs. \<not> success (fst (execute_python_code (exec_envs env n) (Str src)
              (Seconds 50) True fs))"
    and c: "strip code_arg \<noteq> []" "strip error_msg \<noteq> []"
  shows "\<exists>prompt code' w'.
           generate_prompt env question RetryPrompt code_arg error_msg = Inr prompt \<and>
           code' = code (extract_code_and_dependencies (call_llm_code env (llm_calls w) prompt)) \<and>
           retry_attempt env question code_arg error_msg w =
             Failed code'
               (error (fst (execute_python_code (exec_envs env (llm_calls w)) (Str code')
                  (Seconds 50) True (files w)))) w' \<and>
           strip code' \<noteq> [] \<and> llm_calls w' = Suc (llm_calls w)"
proof -
  obtain prompt where pr: "generate_prompt env question RetryPrompt code_arg error_msg = Inr prompt"
  proof -
    obtain prompt where "render env ''prompts/retry.txt''
        [(''question'', strip question), (''code'', strip code_arg), (''error'', strip error_msg)] =
        Inr prompt"
      using r by blast
    then have "generate_prompt env question RetryPrompt code_arg error_msg = Inr prompt"
      using q c by (auto simp: generate_prompt_def render_template_def)
    then show ?thesis by (rule that)
  qed
  define res where "res = extract_code_and_dependencies (call_llm_code env (llm_calls w) prompt)"
  have ps: "p_success res" "strip (code res) \<noteq> []"
    using p by (simp_all add: res_def)
  obtain b m' where md: "manage_dependencies (dep_envs env (llm_calls w)) (dependencies res)
      (manifest w) True False = (Inr b, m')"
    using manage_dependencies_returns d by blast
  obtain rr fs' where ex: "execute_python_code (exec_envs env (llm_calls w)) (Str (code res))
      (Seconds 50) True (files w) = (rr, fs')"
    by (cases "execute_python_code (exec_envs env (llm_calls w)) (Str (code res))
      (Seconds 50) True (files w)") auto
  then have ns: "\<not> success rr"
    using x by (metis fst_conv)
  have "retry_attempt env question code_arg error_msg w =
      Failed (code res) (error rr)
        (w\<lparr>llm_calls := Suc (llm_calls w), manifest := m', files := fs'\<rparr>)"
    using retry_attempt_executes [OF pr res_def [symmetric] ps(1) md ex] ns by simp
  with ex ps pr show ?thesis by (auto simp: res_def)
qed

subsection \<open>Facts about the loop\<close>

lemma retry_after_failures:
  "after_failures env question n (c0, e0, w0) = Some (c, e, wn) \<Longrightarrow>
   0 < n \<longrightarrow> trial < max_trials \<and> trial + int n \<le> 6 \<Longrightarrow>
   retry env question c0 e0 trial max_trials w0 =
     retry env question c e (trial + int n) (if n = 0 then max_trials else 6) wn"
proof (induction n arbitrary: c0 e0 w0 trial max_trials)
  case 0
  then show ?case by simp
next
  case (Suc n)
  from Suc.prems(2) have lt: "trial < max_trials" and le: "trial + 1 + int n \<le> 6" by simp_all
  show ?case
  proof (cases "retry_attempt env question c0 e0 w0")
    case (Returned v w')
    with Suc.prems(1) show ?thesis by simp
  next
    case (Failed c1 e1 w1)
    with Suc.prems(1) have a: "after_failures env question n (c1, e1, w1) = Some (c, e, wn)"
      by simp
    have b: "0 < n \<longrightarrow> trial + 1 < 6 \<and> trial + 1 + int n \<le> 6"
      using le by auto
    have "retry env question c0 e0 trial max_trials w0 = retry env question c1 e1 (trial + 1) 6 w1"
      using lt Failed by (subst retry.simps) simp
    also have "\<dots> = retry env question c e (trial + 1 + int n) (if n = 0 then 6 else 6) wn"
      by (rule Suc.IH [OF a b])
    finally show ?thesis by (simp add: add.assoc)
  qed
qed

lemma after_failures_last:
  "after_failures env question (Suc n) s =
     (case after_failures env question n s of
        None \<Rightarrow> None
      | Some (c, e, w) \<Rightarrow>
          (case retry_attempt env question c e w of
             Returned v w' \<Rightarrow> None
           | Failed c' e' w' \<Rightarrow> Some (c', e', w')))"
proof (induction n arbitrary: s)
  case 0
  obtain c e w where s: "s = (c, e, w)" by (cases s) auto
  show ?case
    unfolding s by (cases "retry_attempt env question c e w") simp_all
next
  case (Suc n)
  obtain c e w where s: "s = (c, e, w)" by (cases s) auto
  show ?case
  proof (cases "retry_attempt env question c e w")
    case (Returned v w')
    then show ?thesis unfolding s by simp
  next
    case (Failed c1 e1 w1)
    have "after_failures env question (Suc (Suc n)) (c, e, w) =
        after_failures env question (Suc n) (c1, e1, w1)"
      using Failed by (subst after_failures.simps(2)) simp
    also note Suc.IH [of "(c1, e1, w1)"]
    also have "after_failures env question n (c1, e1, w1) =
        after_failures env question (Suc n) (c, e, w)"
      using Failed by simp
    finally show ?thesis unfolding s .
  qed
qed

lemma all_attempts_fail:
  assumes q: "strip question \<noteq> []"
    and r: "\<forall>path args. \<exists>prompt. render env path args = Inr prompt"
    and p: "\<forall>n prompt. p_success (extract_code_and_dependencies (call_llm_code env n prompt)) \<and>
              strip (code (extract_code_and_dependencies (call_llm_code env n prompt))) \<noteq> []"
    and d: "\<forall>n m. read_fault (dep_envs env n) \<noteq> Some (ExistsRaised m)"
           "\<forall>n k m. read_fault (dep_envs env n) \<noteq> Some (ReadRaised k (NotOSError m))"
           "\<forall>n m left. write_fault (dep_envs env n) \<noteq> Some (NotOSError m, left)"
    and x: "\<forall>n src fs. \<not> success (fst (execute_python_code (exec_envs env n) (Str src)
              (Seconds 50) True fs))"
    and c: "strip c0 \<noteq> []" "strip e0 \<noteq> []"
  shows "\<exists>c e wn. after_failures env question n (c0, e0, w0) = Some (c, e, wn) \<and>
           strip c \<noteq> [] \<and> strip e \<noteq> [] \<and> llm_calls wn = llm_calls w0 + n"
  using c
proof (induction n arbitrary: c0 e0 w0)
  case 0
  then show ?case by simp
next
  case (Suc n)
  obtain c1 w1 where a: "retry_attempt env question c0 e0 w0 =
           Failed c1
             (error (fst (execute_python_code (exec_envs env (llm_calls w0)) (Str c1)
                (Seconds 50) True (files w0)))) w1"
    and cn: "strip c1 \<noteq> []" and n1: "llm_calls w1 = Suc (llm_calls w0)"
    using retry_attempt_fails [OF q r p d x Suc.prems] by blast
  define e1 where "e1 = error (fst (execute_python_code (exec_envs env (llm_calls w0))
      (Str c1) (Seconds 50) True (files w0)))"
  have en: "strip e1 \<noteq> []"
    unfolding e1_def using x by (intro failure_error_not_blank) simp
  from Suc.IH [OF cn en, of w1]
  obtain c e wn where "after_failures env question n (c1, e1, w1) = Some (c, e, wn)"
    "strip c \<noteq> []" "strip e \<noteq> []" "llm_calls wn = llm_calls w1 + n"
    by blast
  then show ?case
    using a n1 by (simp add: e1_def)
qed


subsection \<open>A task that never succeeds\<close>

text \<open>
  Claim C5, as the code has it. Let the question, the failing code and its error be
  non-blank, every prompt render, every reply of the generator hold a code block that is
  not blank, \<open>exists()\<close> raise nothing and the manifest operations raise nothing but
  \<open>OSError\<close>, and every execution fail. Then \<open>retry\<close>, entered at a trial of at most 6
  with the default maximum 6, raises nothing; it calls the generator once per trial up to
  6 and returns the text \<open>Max retries reached. Last error:\<close> followed by the most recent
  error: the error it was given when it starts at trial 6, and otherwise the error of the
  execution of its last attempt, which is the attempt made in the state that \<open>5 - trial\<close>
  failed attempts leave, on the code block of the reply to the prompt of that state.
\<close>

theorem retry_exhausts:
  assumes q: "strip question \<noteq> []"
    and r: "\<forall>path args. \<exists>prompt. render env path args = Inr prompt"
    and p: "\<forall>n prompt. p_success (extract_code_and_dependencies (call_llm_code env n prompt)) \<and>
              strip (code (extract_code_and_dependencies (call_llm_code env n prompt))) \<noteq> []"
    and d: "\<forall>n m. read_fault (dep_envs env n) \<noteq> Some (ExistsRaised m)"
           "\<forall>n k m. read_fault (dep_envs env n) \<noteq> Some (ReadRaised k (NotOSError m))"
           "\<forall>n m left. write_fault (dep_envs env n) \<noteq> Some (NotOSError m, left)"
    and x: "\<forall>n src fs. \<not> success (fst (execute_python_code (exec_envs env n) (Str src)
              (Seconds 50) True fs))"
    and c: "strip code_arg \<noteq> []" "strip error_msg \<noteq> []"
    and t: "trial \<le> 6"
  shows "\<exists>last w'.
           retry env question code_arg error_msg trial 6 w =
             (Inr (''Max retries reached. Last error: '' @ last), w') \<and>
           llm_calls w' = llm_calls w + nat (6 - trial) \<and>
           (if trial = 6 then last = error_msg
            else (\<exists>c5 e5 w5 prompt.
                    after_failures env question (nat (5 - trial)) (code_arg, error_msg, w) =
                      Some (c5, e5, w5) \<and>
                    llm_calls w5 = llm_calls w + nat (5 - trial) \<and>
                    generate_prompt env question RetryPrompt c5 e5 = Inr prompt \<and>
                    last = error (fst (execute_python_code (exec_envs env (llm_calls w5))
                      (Str (code (extract_code_and_dependencies
                         (call_llm_code env (llm_calls w5) prompt))))
                      (Seconds 50) True (files w5)))))"
proof (cases "trial = 6")
  case True
  then show ?thesis by (simp add: retry.simps)
next
  case False
  with t have lt: "trial < 6" by simp
  define k where "k = nat (5 - trial)"
  have k: "trial + int (Suc k) = 6" "nat (6 - trial) = Suc k"
    using lt by (simp_all add: k_def)
  obtain c5 e5 w5 where a5: "after_failures env question k (code_arg, error_msg, w) = Some (c5, e5, w5)"
    and n5: "strip c5 \<noteq> []" "strip e5 \<noteq> []" and l5: "llm_calls w5 = llm_calls w + k"
    using all_attempts_fail [OF q r p d x c, of k w] by blast
  obtain prompt code' w' where pr: "generate_prompt env question RetryPrompt c5 e5 = Inr prompt"
    and cd: "code' = code (extract_code_and_dependencies (call_llm_code env (llm_calls w5) prompt))"
    and at: "retry_attempt env question c5 e5 w5 =
             Failed code'
               (error (fst (execute_python_code (exec_envs env (llm_calls w5)) (Str code')
                  (Seconds 50) True (files w5)))) w'"
    and l6: "llm_calls w' = Suc (llm_calls w5)"
    using retry_attempt_fails [OF q r p d x n5, of w5] by blast
  define last where "last = error (fst (execute_python_code (exec_envs env (llm_calls w5))
      (Str code') (Seconds 50) True (files w5)))"
  have a6: "after_failures env question (Suc k) (code_arg, error_msg, w) = Some (code', last, w')"
    using a5 at by (simp add: after_failures_last last_def)
  have b: "0 < Suc k \<longrightarrow> trial < 6 \<and> trial + int (Suc k) \<le> 6"
    using lt k(1) by simp
  have "retry env question code_arg error_msg trial 6 w =
      retry env question code' last (trial + int (Suc k)) (if Suc k = 0 then 6 else 6) w'"
    by (rule retry_after_failures [OF a6 b])
  also have "\<dots> = (Inr (''Max retries reached. Last error: '' @ last), w')"
    unfolding k(1) by (simp add: retry.simps)
  finally have res: "retry env question code_arg error_msg trial 6 w =
      (Inr (''Max retries reached. Last error: '' @ last), w')" .
  have calls: "llm_calls w' = llm_calls w + nat (6 - trial)"
    using l5 l6 k(2) by simp
  have "\<exists>c5 e5 w5 prompt.
      after_failures env question (nat (5 - trial)) (code_arg, error_msg, w) = Some (c5, e5, w5) \<and>
      llm_calls w5 = llm_calls w + nat (5 - trial) \<and>
      generate_prompt env question RetryPrompt c5 e5 = Inr prompt \<and>
      last = error (fst (execute_python_code (exec_envs env (llm_calls w5))
        (Str (code (extract_code_and_dependencies (call_llm_code env (llm_calls w5) prompt))))
        (Seconds 50) True (files w5)))"
    using a5 l5 pr cd unfolding last_def k_def by blast
  with res calls False show ?thesis by auto
qed

theorem retry_exhausts_witness:
  "fst (retry env_never_ok ''add'' ''1/0'' ''boom'' 2 6 fresh) =
     Inr ''Max retries reached. Last error: Execution failed (return code: 1)\<newline>ZeroDivisionError: division by zero'' \<and>
   llm_calls (snd (retry env_never_ok ''add'' ''1/0'' ''boom'' 2 6 fresh)) = 4 \<and>
   error (fst (execute_python_code (exec_envs env_never_ok 3) (Str ''1/0'') (Seconds 50) True {})) =
     ''Execution failed (return code: 1)\<newline>ZeroDivisionError: division by zero''"
proof -
  have q: "strip ''add'' \<noteq> []" and c: "strip ''1/0'' \<noteq> []" "strip ''boom'' \<noteq> []"
    by (simp_all add: strip_defs)
  have r: "\<forall>path args. \<exists>prompt. render env_never_ok path args = Inr prompt"
    by (simp add: env_never_ok_def env_always_ok_def)
  have e: "extract_code_and_dependencies ''```code\<newline>1/0\<newline>```'' =
      \<lparr>p_success = True, code = ''1/0'', dependencies = [], p_error = []\<rparr>"
    by code_simp
  have p: "\<forall>n prompt.
      p_success (extract_code_and_dependencies (call_llm_code env_never_ok n prompt)) \<and>
      strip (code (extract_code_and_dependencies (call_llm_code env_never_ok n prompt))) \<noteq> []"
    using c(1) by (simp add: env_never_ok_def env_always_ok_def e)
  have d: "\<forall>n m. read_fault (dep_envs env_never_ok n) \<noteq> Some (ExistsRaised m)"
    "\<forall>n k m. read_fault (dep_envs env_never_ok n) \<noteq> Some (ReadRaised k (NotOSError m))"
    "\<forall>n m left. write_fault (dep_envs env_never_ok n) \<noteq> Some (NotOSError m, left)"
    by (simp_all add: env_never_ok_def env_always_ok_def quiet_def)
  have x: "\<forall>n src fs. \<not> success (fst (execute_python_code (exec_envs env_never_ok n) (Str src)
              (Seconds 50) True fs))"
    by (simp add: env_never_ok_def env_always_ok_def env_failing_def env_clean_def
        execute_python_code_def run_outcome_def
        initial_result_def cleanup_keeps process_results_def Let_def)
  have v: "fst (retry env_never_ok ''add'' ''1/0'' ''boom'' 2 6 fresh) =
     Inr ''Max retries reached. Last error: Execution failed (return code: 1)\<newline>ZeroDivisionError: division by zero''"
    by code_simp
  have l: "error (fst (execute_python_code (exec_envs env_never_ok 3) (Str ''1/0'') (Seconds 50) True {})) =
     ''Execution failed (return code: 1)\<newline>ZeroDivisionError: division by zero''"
    by code_simp
  have f: "llm_calls fresh = 0"
    by (simp add: fresh_def)
  from retry_exhausts [OF q r p d x c, of 2 fresh]
  obtain last w' where "retry env_never_ok ''add'' ''1/0'' ''boom'' 2 6 fresh =
      (Inr (''Max retries reached. Last error: '' @ last), w')"
    and "llm_calls w' = llm_calls fresh + nat (6 - 2)"
    by auto
  then have "llm_calls (snd (retry env_never_ok ''add'' ''1/0'' ''boom'' 2 6 fresh)) = 4"
    using f by simp
  with v l show ?thesis by simp
qed

text \<open>
  Claim C5 as stated fails in two ways. When a regenerated code block is blank, its
  execution fails at input validation and the next level of \<open>retry\<close> raises the
  \<open>ValueError\<close> of \<open>generate_prompt\<close> instead of returning a message. And a maximum
  other than the default is dropped by the recursive call: entered at trial 0 with the
  maximum 2, \<open>retry\<close> stops at trial 6, after six calls of the generator instead of two.
\<close>

theorem blank_code_and_maximum_counterexample:
  "\<not> success (fst (execute_python_code env_failing (Str []) (Seconds 50) True {})) \<and>
   fst (retry env_blank_code ''add'' ''1/0'' ''boom'' 2 6 fresh) =
     Inl (ValueError ''code parameter is required for retry prompt'') \<and>
   fst (retry env_never_ok ''add'' ''1/0'' ''boom'' 0 2 fresh) =
     Inr ''Max retries reached. Last error: Execution failed (return code: 1)\<newline>ZeroDivisionError: division by zero'' \<and>
   llm_calls (snd (retry env_never_ok ''add'' ''1/0'' ''boom'' 0 2 fresh)) = 6"
  by code_simp

subsection \<open>The attempt that succeeds\<close>






end
